theory Spec2Isabelle
  imports Complex_Main "HOL-Library.Word" "HOL-Library.Log_Nat"
begin

section \<open>Machine numbers\<close>

text \<open>
  The monitor is built for Linux on LP64 targets: \<^verbatim>\<open>unsigned long long\<close> and
  \<^verbatim>\<open>unsigned long\<close> are both 64 bits wide, and arithmetic on them wraps modulo \<open>2 ^ 64\<close>.
\<close>

type_synonym u64 = "64 word"

text \<open>
  A C \<^verbatim>\<open>double\<close> is an IEEE 754 binary64 value: a finite number (a rational with a 53-bit
  significand), an infinity or a NaN. Signed zeros are not told apart: every operand of the
  monitor comes from an unsigned integer, so no negative zero arises.
\<close>

datatype double = Dbl rat | PosInf | NegInf | NaN

definition round_half_even :: "rat \<Rightarrow> int" where
  "round_half_even x = (let f = \<lfloor>x\<rfloor>; d = x - of_int f in
     if d < 1/2 then f else if 1/2 < d then f + 1 else if even f then f else f + 1)"

text \<open>\<open>ilog2 x\<close> is \<open>\<lfloor>log\<^sub>2 x\<rfloor>\<close> for a positive rational \<open>x\<close>.\<close>

definition ilog2 :: "rat \<Rightarrow> int" where
  "ilog2 x = (case quotient_of x of (a, b) \<Rightarrow>
     let k = bitlen a - bitlen b in if 2 powi k \<le> x then k else k - 1)"

text \<open>
  Rounding of an exact result to binary64, to nearest with ties to even: 53 significant bits,
  least exponent \<open>-1074\<close> (subnormals), overflow to an infinity from \<open>2 ^ 1024\<close>.
\<close>

definition round_double :: "rat \<Rightarrow> double" where
  "round_double x = (if x = 0 then Dbl 0 else
     let e = max (ilog2 \<bar>x\<bar> - 52) (- 1074);
         y = of_int (round_half_even (\<bar>x\<bar> / 2 powi e)) * 2 powi e
     in if 2 powi 1024 \<le> y then (if 0 < x then PosInf else NegInf) else Dbl (sgn x * y))"

text \<open>The conversion \<^verbatim>\<open>(double)n\<close> of an unsigned 64-bit integer.\<close>

definition u64_to_double :: "u64 \<Rightarrow> double" where
  "u64_to_double w = round_double (of_int (uint w))"

fun ddiv :: "double \<Rightarrow> double \<Rightarrow> double" where
  "ddiv (Dbl a) (Dbl b) =
     (if b = 0 then (if a = 0 then NaN else if 0 < a then PosInf else NegInf)
      else round_double (a / b))"
| "ddiv (Dbl a) PosInf = Dbl 0"
| "ddiv (Dbl a) NegInf = Dbl 0"
| "ddiv PosInf (Dbl b) = (if 0 \<le> b then PosInf else NegInf)"
| "ddiv NegInf (Dbl b) = (if 0 \<le> b then NegInf else PosInf)"
| "ddiv _ _ = NaN"

fun dmul :: "double \<Rightarrow> double \<Rightarrow> double" where
  "dmul (Dbl a) (Dbl b) = round_double (a * b)"
| "dmul PosInf (Dbl b) = (if b = 0 then NaN else if 0 < b then PosInf else NegInf)"
| "dmul NegInf (Dbl b) = (if b = 0 then NaN else if 0 < b then NegInf else PosInf)"
| "dmul (Dbl a) PosInf = (if a = 0 then NaN else if 0 < a then PosInf else NegInf)"
| "dmul (Dbl a) NegInf = (if a = 0 then NaN else if 0 < a then NegInf else PosInf)"
| "dmul PosInf PosInf = PosInf"
| "dmul NegInf NegInf = PosInf"
| "dmul PosInf NegInf = NegInf"
| "dmul NegInf PosInf = NegInf"
| "dmul _ _ = NaN"

text \<open>Comparisons: every comparison with a NaN is false.\<close>

fun dless :: "double \<Rightarrow> double \<Rightarrow> bool" where
  "dless (Dbl a) (Dbl b) = (a < b)"
| "dless (Dbl a) PosInf = True"
| "dless NegInf (Dbl b) = True"
| "dless NegInf PosInf = True"
| "dless _ _ = False"

definition dgreater :: "double \<Rightarrow> double \<Rightarrow> bool" where
  "dgreater x y = dless y x"

definition dge :: "double \<Rightarrow> double \<Rightarrow> bool" where
  "dge x y = (x \<noteq> NaN \<and> y \<noteq> NaN \<and> \<not> dless x y)"

text \<open>A percentage is in range when it is a finite number between 0 and 100.\<close>

definition in_percent_range :: "double \<Rightarrow> bool" where
  "in_percent_range d = (case d of Dbl r \<Rightarrow> 0 \<le> r \<and> r \<le> 100 | _ \<Rightarrow> False)"

text \<open>
  The two statements that close every sampler:
  \<^verbatim>\<open>if (p < 0.0) p = 0.0; if (p > 100.0) p = 100.0;\<close>
\<close>

definition clamp_percent :: "double \<Rightarrow> double" where
  "clamp_percent p =
     (let p1 = (if dless p (Dbl 0) then Dbl 0 else p)
      in if dgreater p1 (Dbl 100) then Dbl 100 else p1)"

section \<open>CPU sampler and delta engine\<close>

record cpu_stats_t =
  user :: u64
  nice :: u64
  system :: u64
  idle :: u64
  iowait :: u64
  irq :: u64
  softirq :: u64
  steal :: u64
  prev_user :: u64
  prev_nice :: u64
  prev_system :: u64
  prev_idle :: u64
  prev_iowait :: u64
  prev_irq :: u64
  prev_softirq :: u64
  prev_steal :: u64
  usage_percent :: double

text \<open>The locals of \<^verbatim>\<open>calculate_cpu_usage\<close>, each as the source computes it.\<close>

definition prev_total :: "cpu_stats_t \<Rightarrow> u64" where
  "prev_total stats = prev_user stats + prev_nice stats + prev_system stats + prev_idle stats
     + prev_iowait stats + prev_irq stats + prev_softirq stats + prev_steal stats"

definition curr_total :: "cpu_stats_t \<Rightarrow> u64" where
  "curr_total stats = user stats + nice stats + system stats + idle stats
     + iowait stats + irq stats + softirq stats + steal stats"

definition total_diff :: "cpu_stats_t \<Rightarrow> u64" where
  "total_diff stats = curr_total stats - prev_total stats"

definition idle_diff :: "cpu_stats_t \<Rightarrow> u64" where
  "idle_diff stats = (idle stats + iowait stats) - (prev_idle stats + prev_iowait stats)"

definition calculate_cpu_usage :: "cpu_stats_t \<Rightarrow> cpu_stats_t" where
  "calculate_cpu_usage stats =
     (let p = (if total_diff stats = 0 then Dbl 0
               else dmul (ddiv (u64_to_double (total_diff stats - idle_diff stats))
                               (u64_to_double (total_diff stats)))
                         (Dbl 100))
      in stats\<lparr>usage_percent := clamp_percent p\<rparr>)"

section \<open>Reading text: \<^verbatim>\<open>sscanf\<close>\<close>

text \<open>
  A line is the C string that \<^verbatim>\<open>fgets\<close> left in the buffer (its bytes up to the
  terminating NUL). The conversions follow the C library of the target (glibc).
\<close>

definition isspace :: "char \<Rightarrow> bool" where
  "isspace c = (c = CHR '' '' \<or> c = CHR 0x09 \<or> c = CHR 0x0A \<or> c = CHR 0x0B
     \<or> c = CHR 0x0C \<or> c = CHR 0x0D)"

definition isdigit :: "char \<Rightarrow> bool" where
  "isdigit c = (48 \<le> (of_char c :: int) \<and> (of_char c :: int) \<le> 57)"

definition dec_value :: "string \<Rightarrow> int" where
  "dec_value ds = foldl (\<lambda>acc c. 10 * acc + (of_char c - 48)) 0 ds"

text \<open>
  The conversions \<^verbatim>\<open>%llu\<close> and \<^verbatim>\<open>%lu\<close>: white space is skipped, an optional sign and
  a non-empty run of decimal digits are read, and the digits are converted as
  \<^verbatim>\<open>strtoull\<close> does: a value that does not fit is stored as the greatest value, a value
  after a minus sign is negated modulo \<open>2 ^ 64\<close>. The result is the value stored and the
  unread rest of the input, or \<open>None\<close> when the conversion fails.
\<close>

definition scan_unsigned :: "string \<Rightarrow> (u64 \<times> string) option" where
  "scan_unsigned s =
     (let s1 = dropWhile isspace s;
          signed = (s1 \<noteq> [] \<and> (hd s1 = CHR ''-'' \<or> hd s1 = CHR ''+''));
          neg = (s1 \<noteq> [] \<and> hd s1 = CHR ''-'');
          s2 = (if signed then tl s1 else s1);
          ds = takeWhile isdigit s2;
          n = dec_value ds
      in if ds = [] then None
         else Some (if 2 ^ 64 \<le> n then - 1 else if neg then - of_int n else of_int n,
                    dropWhile isdigit s2))"

fun scan_unsigneds :: "nat \<Rightarrow> string \<Rightarrow> u64 list" where
  "scan_unsigneds 0 s = []"
| "scan_unsigneds (Suc k) s =
     (case scan_unsigned s of None \<Rightarrow> [] | Some (v, rest) \<Rightarrow> v # scan_unsigneds k rest)"

text \<open>
  \<^verbatim>\<open>sscanf(line, "cpu %llu %llu %llu %llu %llu %llu %llu %llu", ...)\<close>: the values
  converted, in order, and the value returned: their number, or \<open>-1\<close> (\<^verbatim>\<open>EOF\<close>) when the
  input ends before the first conversion.
\<close>

definition sscanf_cpu :: "string \<Rightarrow> int \<times> u64 list" where
  "sscanf_cpu line =
     (if take 3 line \<noteq> ''cpu''
      then (if line = take (length line) ''cpu'' then - 1 else 0, [])
      else let vs = scan_unsigneds 8 (drop 3 line)
           in (if vs = [] \<and> dropWhile isspace (drop 3 line) = [] then - 1
               else int (length vs), vs))"

text \<open>
  \<^verbatim>\<open>sscanf(line, "%63s %lu kB", key, &value) == 2\<close>: the key and the value when both
  conversions succeed. The literal \<^verbatim>\<open>kB\<close> comes after the last conversion and cannot change
  the count.
\<close>

definition sscanf_meminfo :: "string \<Rightarrow> (string \<times> u64) option" where
  "sscanf_meminfo line =
     (let s1 = dropWhile isspace line;
          key = take 63 (takeWhile (\<lambda>c. \<not> isspace c) s1)
      in if key = [] then None
         else (case scan_unsigned (drop (length key) s1) of
                 None \<Rightarrow> None
               | Some (v, rest) \<Rightarrow> Some (key, v)))"

section \<open>Reading the CPU counters\<close>

text \<open>What \<^verbatim>\<open>/proc/stat\<close> gives to one call of \<^verbatim>\<open>read_cpu_stats\<close>.\<close>

datatype proc_stat = FopenFails | FgetsFails | FirstLine string

definition cpu_fields :: "((u64 \<Rightarrow> u64) \<Rightarrow> cpu_stats_t \<Rightarrow> cpu_stats_t) list" where
  "cpu_fields = [user_update, nice_update, system_update, idle_update,
                 iowait_update, irq_update, softirq_update, steal_update]"

text \<open>\<^verbatim>\<open>sscanf\<close> stores each converted value through the pointer of its field.\<close>

definition store_fields :: "u64 list \<Rightarrow> cpu_stats_t \<Rightarrow> cpu_stats_t" where
  "store_fields vs stats = fold (\<lambda>(upd, v) s. upd (\<lambda>_. v) s) (zip cpu_fields vs) stats"

definition store_previous :: "cpu_stats_t \<Rightarrow> cpu_stats_t" where
  "store_previous stats = stats\<lparr>prev_user := user stats, prev_nice := nice stats,
     prev_system := system stats, prev_idle := idle stats, prev_iowait := iowait stats,
     prev_irq := irq stats, prev_softirq := softirq stats, prev_steal := steal stats\<rparr>"

definition read_cpu_stats :: "proc_stat \<Rightarrow> cpu_stats_t \<Rightarrow> int \<times> cpu_stats_t" where
  "read_cpu_stats src stats =
     (case src of
        FopenFails \<Rightarrow> (- 1, stats)
      | FgetsFails \<Rightarrow> (- 1, stats)
      | FirstLine line \<Rightarrow>
          (case sscanf_cpu line of (result, vs) \<Rightarrow>
             let stats' = store_fields vs (store_previous stats)
             in if result < 4 then (- 1, stats') else (0, stats')))"

section \<open>Memory sampler\<close>

text \<open>
  The fields of \<^verbatim>\<open>memory_stats_t\<close> carry the prefix \<open>mem_\<close>, those of
  \<^verbatim>\<open>disk_stats_t\<close> the prefix \<open>disk_\<close>: the structures share field names.
\<close>

record memory_stats_t =
  mem_total :: u64
  mem_available :: u64
  mem_used :: u64
  mem_free :: u64
  mem_buffers :: u64
  mem_cached :: u64
  mem_usage_percent :: double

text \<open>The body of the loop over the lines of \<^verbatim>\<open>/proc/meminfo\<close>.\<close>

definition meminfo_line :: "string \<Rightarrow> memory_stats_t \<Rightarrow> memory_stats_t" where
  "meminfo_line line stats =
     (case sscanf_meminfo line of
        None \<Rightarrow> stats
      | Some (key, v) \<Rightarrow>
          if key = ''MemTotal:'' then stats\<lparr>mem_total := v\<rparr>
          else if key = ''MemAvailable:'' then stats\<lparr>mem_available := v\<rparr>
          else if key = ''MemFree:'' then stats\<lparr>mem_free := v\<rparr>
          else if key = ''Buffers:'' then stats\<lparr>mem_buffers := v\<rparr>
          else if key = ''Cached:'' then stats\<lparr>mem_cached := v\<rparr>
          else stats)"

fun meminfo_lines :: "string list \<Rightarrow> memory_stats_t \<Rightarrow> memory_stats_t" where
  "meminfo_lines [] stats = stats"
| "meminfo_lines (line # rest) stats = meminfo_lines rest (meminfo_line line stats)"

text \<open>
  What \<^verbatim>\<open>/proc/meminfo\<close> gives to one call: \<open>None\<close> when \<^verbatim>\<open>fopen\<close> fails, else the
  lines that the successive calls of \<^verbatim>\<open>fgets\<close> return before the first \<^verbatim>\<open>NULL\<close>.
\<close>

type_synonym proc_meminfo = "string list option"

definition read_memory_stats :: "proc_meminfo \<Rightarrow> memory_stats_t \<Rightarrow> int \<times> memory_stats_t" where
  "read_memory_stats src stats =
     (case src of
        None \<Rightarrow> (- 1, stats)
      | Some lines \<Rightarrow>
          let s0 = stats\<lparr>mem_total := 0, mem_available := 0, mem_free := 0,
                         mem_buffers := 0, mem_cached := 0\<rparr>;
              s1 = meminfo_lines lines s0;
              s2 = (if 0 < mem_available s1
                    then s1\<lparr>mem_used := mem_total s1 - mem_available s1\<rparr>
                    else s1\<lparr>mem_used := mem_total s1 - mem_free s1 - mem_buffers s1
                                           - mem_cached s1,
                            mem_available := mem_free s1 + mem_buffers s1 + mem_cached s1\<rparr>);
              p = (if 0 < mem_total s2
                   then dmul (ddiv (u64_to_double (mem_used s2)) (u64_to_double (mem_total s2)))
                             (Dbl 100)
                   else Dbl 0)
          in (0, s2\<lparr>mem_usage_percent := clamp_percent p\<rparr>))"

section \<open>Disk sampler\<close>

record statvfs_t =
  f_blocks :: u64
  f_bfree :: u64
  f_bavail :: u64
  f_frsize :: u64

record disk_stats_t =
  mount_point :: string
  disk_total :: u64
  disk_used :: u64
  disk_available :: u64
  disk_usage_percent :: double

definition MAX_PATH_LENGTH :: nat where
  "MAX_PATH_LENGTH = 256"

text \<open>The first argument is the outcome of \<^verbatim>\<open>statvfs(path, &vfs)\<close>: \<open>None\<close> when it fails.\<close>

definition read_disk_stats :: "statvfs_t option \<Rightarrow> string \<Rightarrow> disk_stats_t \<Rightarrow> int \<times> disk_stats_t" where
  "read_disk_stats res path stats =
     (case res of
        None \<Rightarrow> (- 1, stats)
      | Some vfs \<Rightarrow>
          let s1 = stats\<lparr>mount_point := take (MAX_PATH_LENGTH - 1) path,
                         disk_total := f_blocks vfs * f_frsize vfs,
                         disk_available := f_bavail vfs * f_frsize vfs\<rparr>;
              s2 = s1\<lparr>disk_used := disk_total s1 - f_bfree vfs * f_frsize vfs\<rparr>;
              p = (if 0 < disk_total s2
                   then dmul (ddiv (u64_to_double (disk_used s2)) (u64_to_double (disk_total s2)))
                             (Dbl 100)
                   else Dbl 0)
          in (0, s2\<lparr>disk_usage_percent := clamp_percent p\<rparr>))"

section \<open>Unit converter\<close>

definition units :: "string list" where
  "units = [''B'', ''KB'', ''MB'', ''GB'', ''TB'']"

text \<open>
  The loop \<^verbatim>\<open>while (size >= 1024.0 && unit_index < 4) { size /= 1024.0; unit_index++; }\<close>;
  the local \<^verbatim>\<open>size\<close> is \<open>sz\<close> here.
\<close>

function format_bytes_loop :: "double \<Rightarrow> nat \<Rightarrow> double \<times> nat" where
  "format_bytes_loop sz unit_index =
     (if dge sz (Dbl 1024) \<and> unit_index < 4
      then format_bytes_loop (ddiv sz (Dbl 1024)) (unit_index + 1)
      else (sz, unit_index))"
  by pat_completeness auto
termination
  by (relation "measure (\<lambda>(sz, unit_index). 4 - unit_index)") auto

declare format_bytes_loop.simps [simp del]

text \<open>The decimal digits of a number that is not negative.\<close>

definition digit_char :: "int \<Rightarrow> char" where
  "digit_char d = ''0123456789'' ! nat d"

function show_dec :: "int \<Rightarrow> string" where
  "show_dec n = (if n < 10 then [digit_char n]
                 else show_dec (n div 10) @ [digit_char (n mod 10)])"
  by pat_completeness auto
termination
  by (relation "measure nat") auto

declare show_dec.simps [simp del]

text \<open>
  \<^verbatim>\<open>%.1f\<close>: the value rounded to one decimal, ties to even (the value printed is the
  exact binary value, rounded once).
\<close>

definition printf_1f :: "double \<Rightarrow> string" where
  "printf_1f d =
     (case d of
        Dbl r \<Rightarrow>
          (let t = round_half_even (\<bar>r\<bar> * 10)
           in (if r < 0 then ''-'' else []) @ show_dec (t div 10) @ ''.'' @ show_dec (t mod 10))
      | PosInf \<Rightarrow> ''inf''
      | NegInf \<Rightarrow> ''-inf''
      | NaN \<Rightarrow> ''nan'')"

text \<open>
  \<^verbatim>\<open>snprintf(buffer, buffer_size, ...)\<close> keeps the first \<open>buffer_size - 1\<close> characters of the
  text and writes nothing into a buffer of size 0.
\<close>

definition snprintf :: "string \<Rightarrow> nat \<Rightarrow> string \<Rightarrow> string" where
  "snprintf buffer buffer_size text = (if buffer_size = 0 then buffer else take (buffer_size - 1) text)"

definition format_bytes_text :: "u64 \<Rightarrow> string" where
  "format_bytes_text bytes =
     (case format_bytes_loop (u64_to_double bytes) 0 of (sz, unit_index) \<Rightarrow>
        if unit_index = 0 then show_dec (uint bytes) @ '' '' @ units ! unit_index
        else printf_1f sz @ '' '' @ units ! unit_index)"

definition format_bytes :: "u64 \<Rightarrow> string \<Rightarrow> nat \<Rightarrow> string" where
  "format_bytes bytes buffer buffer_size = snprintf buffer buffer_size (format_bytes_text bytes)"

text \<open>
  What the scaling loop establishes, from a finite size \<open>r\<close> and an index \<open>ui\<close>: the size
  it returns is finite and not negative, at most \<open>2 ^ 54\<close> once a division took place and
  below 1024 when the index stays below 4; the index does not go down nor above 4, it moves
  exactly when the loop is entered, and the size returned is the size divided by 1024 once
  for each step of the index.
\<close>

definition loop_ok :: "rat \<Rightarrow> nat \<Rightarrow> bool" where
  "loop_ok r ui \<longleftrightarrow>
     (\<exists>r'. fst (format_bytes_loop (Dbl r) ui) = Dbl r' \<and> 0 \<le> r'
        \<and> (r \<le> 2 ^ 54 \<or> ui < snd (format_bytes_loop (Dbl r) ui) \<longrightarrow> r' \<le> 2 ^ 54)
        \<and> (snd (format_bytes_loop (Dbl r) ui) < 4 \<longrightarrow> r' < 1024))
     \<and> ui \<le> snd (format_bytes_loop (Dbl r) ui)
     \<and> snd (format_bytes_loop (Dbl r) ui) \<le> 4
     \<and> (snd (format_bytes_loop (Dbl r) ui) = ui \<longleftrightarrow> r < 1024 \<or> ui = 4)
     \<and> fst (format_bytes_loop (Dbl r) ui)
         = ((\<lambda>x. ddiv x (Dbl 1024)) ^^ (snd (format_bytes_loop (Dbl r) ui) - ui)) (Dbl r)"

section \<open>Rendering: colours, shares and panels\<close>

datatype color = GREEN | YELLOW | RED

text \<open>The colour chains of \<^verbatim>\<open>print_system_info\<close>, one per metric.\<close>

definition cpu_color :: "double \<Rightarrow> color" where
  "cpu_color p = (if dgreater p (Dbl 80) then RED else if dgreater p (Dbl 60) then YELLOW else GREEN)"

definition mem_color :: "double \<Rightarrow> color" where
  "mem_color p = (if dgreater p (Dbl 90) then RED else if dgreater p (Dbl 75) then YELLOW else GREEN)"

definition disk_color :: "double \<Rightarrow> color" where
  "disk_color p = (if dgreater p (Dbl 90) then RED else if dgreater p (Dbl 80) then YELLOW else GREEN)"

text \<open>The three arguments of the \<^verbatim>\<open>Details:\<close> line, each as the source writes it.\<close>

definition user_share :: "cpu_stats_t \<Rightarrow> double" where
  "user_share cpu =
     dmul (ddiv (u64_to_double (user cpu - prev_user cpu))
                (u64_to_double ((user cpu + nice cpu + system cpu + idle cpu
                                   + iowait cpu + irq cpu + softirq cpu + steal cpu)
                                - (prev_user cpu + prev_nice cpu + prev_system cpu
                                   + prev_idle cpu + prev_iowait cpu + prev_irq cpu
                                   + prev_softirq cpu + prev_steal cpu))))
          (Dbl 100)"

definition system_share :: "cpu_stats_t \<Rightarrow> double" where
  "system_share cpu =
     dmul (ddiv (u64_to_double (system cpu - prev_system cpu))
                (u64_to_double ((user cpu + nice cpu + system cpu + idle cpu
                                   + iowait cpu + irq cpu + softirq cpu + steal cpu)
                                - (prev_user cpu + prev_nice cpu + prev_system cpu
                                   + prev_idle cpu + prev_iowait cpu + prev_irq cpu
                                   + prev_softirq cpu + prev_steal cpu))))
          (Dbl 100)"

definition idle_share :: "cpu_stats_t \<Rightarrow> double" where
  "idle_share cpu =
     dmul (ddiv (u64_to_double (idle cpu - prev_idle cpu))
                (u64_to_double ((user cpu + nice cpu + system cpu + idle cpu
                                   + iowait cpu + irq cpu + softirq cpu + steal cpu)
                                - (prev_user cpu + prev_nice cpu + prev_system cpu
                                   + prev_idle cpu + prev_iowait cpu + prev_irq cpu
                                   + prev_softirq cpu + prev_steal cpu))))
          (Dbl 100)"

text \<open>
  The specification's idle share, in its words: the combined idle and iowait delta over the
  total delta, times 100. It is compared with \<open>idle_share\<close>, which is the source's.
\<close>

definition spec_idle_share :: "cpu_stats_t \<Rightarrow> double" where
  "spec_idle_share cpu =
     dmul (ddiv (u64_to_double ((idle cpu + iowait cpu) - (prev_idle cpu + prev_iowait cpu)))
                (u64_to_double (total_diff cpu)))
          (Dbl 100)"

text \<open>The sum of the eight field deltas.\<close>

definition sum_of_deltas :: "cpu_stats_t \<Rightarrow> u64" where
  "sum_of_deltas cpu = (user cpu - prev_user cpu) + (nice cpu - prev_nice cpu)
     + (system cpu - prev_system cpu) + (idle cpu - prev_idle cpu)
     + (iowait cpu - prev_iowait cpu) + (irq cpu - prev_irq cpu)
     + (softirq cpu - prev_softirq cpu) + (steal cpu - prev_steal cpu)"


text \<open>
  What \<^verbatim>\<open>print_system_info\<close> shows, panel by panel: the colour and the percentage of
  the bar and the figures of the detail lines. Escape sequences, rules and the time stamp are
  left out.
\<close>

datatype panel =
    CpuSection color double double double double
  | MemorySection color double string string string string string
  | DiskSection string color double string string string


section \<open>One pass of the polling loop\<close>



text \<open>
  What one pass does that can be seen from outside, in order: the attempt to read a counter
  source, a line written to the standard error stream by \<^verbatim>\<open>fprintf\<close> (\<open>Stderr\<close>, the line
  without its newline) or by \<^verbatim>\<open>perror\<close> (\<open>Perror\<close>, the prefix given to it: the line is the
  prefix, a colon and the system's text for the error), and the panels written to the
  standard output.
\<close>

datatype event =
    Read_proc_stat
  | Read_proc_meminfo
  | Call_statvfs string
  | Stderr string
  | Perror string
  | Stdout "panel list"

text \<open>
  The lines that the samplers themselves write to the standard error stream before they
  return \<open>-1\<close>: \<^verbatim>\<open>read_cpu_stats\<close> when the source cannot be opened, when no line can be
  read and when fewer than four values convert, the two others when their system call fails.
\<close>

definition read_cpu_stats_stderr :: "proc_stat \<Rightarrow> event list" where
  "read_cpu_stats_stderr src =
     (case src of
        FopenFails \<Rightarrow> [Perror ''Error opening /proc/stat'']
      | FgetsFails \<Rightarrow> [Stderr ''Error reading from /proc/stat'']
      | FirstLine line \<Rightarrow>
          if fst (sscanf_cpu line) < 4 then [Stderr ''Error parsing /proc/stat''] else [])"

definition read_memory_stats_stderr :: "proc_meminfo \<Rightarrow> event list" where
  "read_memory_stats_stderr src =
     (case src of None \<Rightarrow> [Perror ''Error opening /proc/meminfo''] | Some lines \<Rightarrow> [])"

definition read_disk_stats_stderr :: "statvfs_t option \<Rightarrow> event list" where
  "read_disk_stats_stderr res =
     (case res of None \<Rightarrow> [Perror ''Error getting disk statistics''] | Some vfs \<Rightarrow> [])"





fun is_Stdout :: "event \<Rightarrow> bool" where
  "is_Stdout (Stdout secs) = True"
| "is_Stdout _ = False"

definition renders :: "event list \<Rightarrow> bool" where
  "renders evs = list_ex is_Stdout evs"

section \<open>Sample inputs\<close>

text \<open>A pair of samples whose idle counter went down between the two reads.\<close>

definition regressed_sample :: cpu_stats_t where
  "regressed_sample = \<lparr>user = 10, nice = 0, system = 5, idle = 3, iowait = 0, irq = 0,
     softirq = 0, steal = 0, prev_user = 8, prev_nice = 0, prev_system = 4, prev_idle = 100,
     prev_iowait = 1, prev_irq = 0, prev_softirq = 0, prev_steal = 0, usage_percent = NaN\<rparr>"

text \<open>A pair of samples with every counter non-decreasing.\<close>

definition increasing_sample :: cpu_stats_t where
  "increasing_sample = \<lparr>user = 130, nice = 2, system = 45, idle = 900, iowait = 12, irq = 1,
     softirq = 3, steal = 0, prev_user = 100, prev_nice = 2, prev_system = 40, prev_idle = 850,
     prev_iowait = 10, prev_irq = 1, prev_softirq = 2, prev_steal = 0, usage_percent = NaN\<rparr>"

text \<open>Two different samples with the same, non-zero, total.\<close>

definition equal_totals_sample :: cpu_stats_t where
  "equal_totals_sample = \<lparr>user = 5, nice = 0, system = 0, idle = 7, iowait = 0, irq = 0,
     softirq = 0, steal = 0, prev_user = 7, prev_nice = 0, prev_system = 0, prev_idle = 5,
     prev_iowait = 0, prev_irq = 0, prev_softirq = 0, prev_steal = 0, usage_percent = Dbl 42\<rparr>"

text \<open>One tick of idle time and one tick of I/O wait since the previous sample.\<close>

definition iowait_sample :: cpu_stats_t where
  "iowait_sample = \<lparr>user = 0, nice = 0, system = 0, idle = 1, iowait = 1, irq = 0,
     softirq = 0, steal = 0, prev_user = 0, prev_nice = 0, prev_system = 0, prev_idle = 0,
     prev_iowait = 0, prev_irq = 0, prev_softirq = 0, prev_steal = 0, usage_percent = Dbl 0\<rparr>"

text \<open>The memory structure as \<^verbatim>\<open>main\<close> initialises it, and one left by an earlier pass.\<close>

definition zero_memory :: memory_stats_t where
  "zero_memory = \<lparr>mem_total = 0, mem_available = 0, mem_used = 0, mem_free = 0,
     mem_buffers = 0, mem_cached = 0, mem_usage_percent = Dbl 0\<rparr>"

text \<open>Sources of memory counters.\<close>

definition overcommitted_meminfo :: "string list" where
  "overcommitted_meminfo = [''MemTotal:        1000 kB'', ''MemAvailable:    2000 kB'']"

definition fallback_meminfo :: "string list" where
  "fallback_meminfo = [''MemTotal:        1000 kB'', ''MemFree:          200 kB'',
     ''Buffers:           50 kB'', ''Cached:           250 kB'', ''SwapCached:        7 kB'']"

definition zero_available_meminfo :: "string list" where
  "zero_available_meminfo = [''MemTotal:        1000 kB'', ''MemFree:          100 kB'',
     ''MemAvailable:       0 kB'']"

definition stale_memory :: memory_stats_t where
  "stale_memory = \<lparr>mem_total = 777, mem_available = 111, mem_used = 666, mem_free = 11,
     mem_buffers = 22, mem_cached = 33, mem_usage_percent = Dbl 85\<rparr>"

definition malformed_meminfo :: "string list" where
  "malformed_meminfo = [''MemTotal: lots kB'', ''12345'', [], ''MemFree:         200 kB'']"

text \<open>A source reports a key when one of its lines converts with that key.\<close>

definition reports :: "string \<Rightarrow> string list \<Rightarrow> bool" where
  "reports key lines =
     list_ex (\<lambda>line. case sscanf_meminfo line of None \<Rightarrow> False | Some (k, v) \<Rightarrow> k = key) lines"

text \<open>Lines of \<^verbatim>\<open>/proc/stat\<close>: one with two counters only, one complete.\<close>

definition short_stat_line :: string where
  "short_stat_line = ''cpu  5 6''"

definition full_stat_line :: string where
  "full_stat_line = ''cpu  200 2 50 1000 15 1 4 0 0 0''"









text \<open>\<open>2 ^ 60\<close> bytes.\<close>

definition exbibyte :: u64 where
  "exbibyte = 1152921504606846976"

section \<open>The specification's severity classifier\<close>

text \<open>
  The source has no classifier of its own: it chooses a colour, and its documentation names
  green normal, yellow moderate and red high usage.
\<close>

datatype tier = Normal | Moderate | High

fun tier_of_color :: "color \<Rightarrow> tier" where
  "tier_of_color GREEN = Normal"
| "tier_of_color YELLOW = Moderate"
| "tier_of_color RED = High"

text \<open>
  The classifier in the words of the specification, with closed lower bounds. It is compared
  with the colour chains, which are the source's.
\<close>

definition spec_classify :: "double \<Rightarrow> double \<Rightarrow> double \<Rightarrow> tier" where
  "spec_classify percent lowCut highCut =
     (if dless percent lowCut then Normal
      else if dless percent highCut then Moderate
      else High)"

section \<open>Properties of the number model\<close>

lemma round_double_not_NaN: "round_double x \<noteq> NaN"
  by (simp add: round_double_def Let_def)

lemma clamp_percent_in_range: "p \<noteq> NaN \<Longrightarrow> in_percent_range (clamp_percent p)"
  by (cases p) (auto simp: clamp_percent_def in_percent_range_def dgreater_def)

lemma clamp_percent_zero: "clamp_percent (Dbl 0) = Dbl 0"
  by (simp add: clamp_percent_def dgreater_def)

lemma round_half_even_ge:
  assumes "of_int n \<le> z"
  shows "n \<le> round_half_even z"
proof -
  have "n \<le> \<lfloor>z\<rfloor>" using assms by (simp add: le_floor_iff)
  then show ?thesis by (auto simp: round_half_even_def Let_def)
qed

lemma round_half_even_le:
  assumes "z \<le> of_int n"
  shows "round_half_even z \<le> n"
proof (cases "z = of_int n")
  case True
  then show ?thesis by (simp add: round_half_even_def)
next
  case False
  then have "z < of_int n" using assms by simp
  then have "\<lfloor>z\<rfloor> < n" by (simp add: floor_less_iff)
  then show ?thesis by (auto simp: round_half_even_def Let_def)
qed

lemma bitlen_powi_bounds:
  assumes "0 < a"
  shows "(2::rat) powi (bitlen a - 1) \<le> of_int a" and "of_int a < (2::rat) powi (bitlen a)"
proof -
  have b: "2 ^ nat (bitlen a - 1) \<le> a" "a < 2 ^ nat (bitlen a)"
    using bitlen_bounds [OF assms] by simp_all
  have ge: "1 \<le> bitlen a" using assms bitlen_eq_zero_iff [of a] bitlen_nonneg [of a] by linarith
  have "(2::rat) powi (bitlen a - 1) = of_int (2 ^ nat (bitlen a - 1))"
    using ge by (simp add: power_int_def)
  also have "\<dots> \<le> of_int a" using b(1) by (simp only: of_int_le_iff)
  finally show "(2::rat) powi (bitlen a - 1) \<le> of_int a" .
  have "(of_int a :: rat) < of_int (2 ^ nat (bitlen a))" using b(2) by (simp only: of_int_less_iff)
  also have "\<dots> = 2 powi (bitlen a)" using ge by (simp add: power_int_def)
  finally show "of_int a < (2::rat) powi (bitlen a)" .
qed

lemma ilog2_bounds:
  assumes "0 < x"
  shows "2 powi (ilog2 x) \<le> x" and "x < 2 powi (ilog2 x + 1)"
proof -
  obtain a b where q: "quotient_of x = (a, b)" by (cases "quotient_of x")
  have b: "0 < b" using q by (rule quotient_of_denom_pos)
  have x: "x = of_int a / of_int b" using q by (rule quotient_of_div)
  have a: "0 < a" using assms b x by (simp add: zero_less_divide_iff)
  define k where "k = bitlen a - bitlen b"
  have il: "ilog2 x = (if 2 powi k \<le> x then k else k - 1)"
    by (simp add: ilog2_def q k_def Let_def)
  have p: "(0::rat) < 2 powi n" for n by simp
  have lo: "2 powi (k - 1) \<le> x"
  proof -
    have "(2::rat) powi (k - 1) = 2 powi (bitlen a - 1) / 2 powi (bitlen b)"
      by (simp add: k_def power_int_diff [symmetric] algebra_simps)
    also have "\<dots> \<le> of_int a / of_int b"
      using bitlen_powi_bounds [OF a] bitlen_powi_bounds [OF b] a b
      by (intro frac_le) simp_all
    finally show ?thesis by (simp add: x)
  qed
  have hi: "x < 2 powi (k + 1)"
  proof -
    have "of_int a / of_int b < (2::rat) powi (bitlen a) / 2 powi (bitlen b - 1)"
      using bitlen_powi_bounds [OF a] bitlen_powi_bounds [OF b] a b
      by (intro frac_less) simp_all
    also have "\<dots> = 2 powi (k + 1)"
      by (simp add: k_def power_int_diff [symmetric] algebra_simps)
    finally show ?thesis by (simp add: x)
  qed
  show "2 powi (ilog2 x) \<le> x" using lo by (simp add: il)
  show "x < 2 powi (ilog2 x + 1)" using hi by (auto simp: il not_le)
qed

lemma round_double_bounds:
  assumes lo: "2 powi lo \<le> x" and hi: "x \<le> 2 powi hi" and r: "- 1022 \<le> lo" "hi \<le> 1023"
  shows "\<exists>y. round_double x = Dbl y \<and> 2 powi lo \<le> y \<and> y \<le> 2 powi hi"
proof -
  have p: "(0::rat) < 2 powi n" for n by simp
  have mono: "(2::rat) powi m \<le> 2 powi n" if "m \<le> n" for m n
    using that by (intro power_int_increasing) simp_all
  have x: "0 < x" using lo p [of lo] by linarith
  define i where "i = ilog2 x"
  have i: "2 powi i \<le> x" "x < 2 powi (i + 1)" using ilog2_bounds [OF x] by (simp_all add: i_def)
  have lo_i: "lo \<le> i"
  proof (rule ccontr)
    assume "\<not> lo \<le> i"
    then have "(2::rat) powi (i + 1) \<le> 2 powi lo" by (intro mono) simp
    then show False using lo i(2) by linarith
  qed
  have i_hi: "i \<le> hi"
  proof (rule ccontr)
    assume "\<not> i \<le> hi"
    then have "(2::rat) powi (hi + 1) \<le> 2 powi i" by (intro mono) simp
    moreover have "(2::rat) powi hi < 2 powi (hi + 1)" by (simp add: power_int_add)
    ultimately show False using hi i(1) by linarith
  qed
  define e where "e = i - 52"
  have e: "max (ilog2 \<bar>x\<bar> - 52) (- 1074) = e"
    using lo_i r x by (simp add: e_def i_def)
  define z where "z = x / 2 powi e"
  have z_lo: "of_int (2 ^ 52) \<le> z"
  proof -
    have "(2::rat) powi 52 = 2 powi i / 2 powi e"
      by (simp add: e_def power_int_diff [symmetric])
    also have "\<dots> \<le> z" unfolding z_def using i(1) p [of e] by (simp add: divide_right_mono)
    finally show ?thesis by simp
  qed
  have he: "0 \<le> hi - e" using i_hi by (simp add: e_def)
  have z_hi: "z \<le> of_int (2 ^ nat (hi - e))"
  proof -
    have "z \<le> 2 powi hi / 2 powi e" unfolding z_def using hi p [of e] by (simp add: divide_right_mono)
    also have "\<dots> = 2 powi (hi - e)" by (simp add: power_int_diff)
    also have "\<dots> = of_int (2 ^ nat (hi - e))" using he by (simp add: power_int_def)
    finally show ?thesis .
  qed
  define m where "m = round_half_even z"
  have m_lo: "2 ^ 52 \<le> m" unfolding m_def using z_lo by (rule round_half_even_ge)
  have m_hi: "m \<le> 2 ^ nat (hi - e)" unfolding m_def using z_hi by (rule round_half_even_le)
  define y where "y = of_int m * (2::rat) powi e"
  have y_lo: "2 powi i \<le> y"
  proof -
    have "(2::rat) powi i = of_int (2 ^ 52) * 2 powi e"
      by (simp add: e_def power_int_diff)
    also have "\<dots> \<le> y" unfolding y_def
      by (rule mult_right_mono [OF _ less_imp_le [OF p]]) (use m_lo in \<open>simp only: of_int_le_iff\<close>)
    finally show ?thesis .
  qed
  have y_hi: "y \<le> 2 powi hi"
  proof -
    have "y \<le> of_int (2 ^ nat (hi - e)) * 2 powi e" unfolding y_def
      by (rule mult_right_mono [OF _ less_imp_le [OF p]]) (use m_hi in \<open>simp only: of_int_le_iff\<close>)
    also have "\<dots> = 2 powi (hi - e) * 2 powi e" using he by (simp add: power_int_def)
    also have "\<dots> = 2 powi hi" by (simp add: power_int_add [symmetric])
    finally show ?thesis .
  qed
  have "y < 2 powi 1024"
  proof -
    have "(2::rat) powi hi \<le> 2 powi 1023" using r by (intro mono) simp
    moreover have "(2::rat) powi 1023 < 2 powi 1024" by (simp add: power_int_def)
    ultimately show ?thesis using y_hi by linarith
  qed
  then have "round_double x = Dbl y"
    using x e by (simp add: round_double_def Let_def y_def m_def z_def not_le del: power_int_numeral)
  moreover have "2 powi lo \<le> y" using y_lo mono [OF lo_i] by linarith
  ultimately show ?thesis using y_hi by blast
qed

lemma round_half_even_of_int: "round_half_even (of_int k) = k"
  by (simp add: round_half_even_def)

lemma round_double_exact:
  assumes m: "\<bar>m\<bar> < 2 ^ 53" and e: "- 1074 \<le> e" "e \<le> 970"
  shows "round_double (of_int m * 2 powi e) = Dbl (of_int m * 2 powi e)"
proof (cases "m = 0")
  case True
  then show ?thesis by (simp add: round_double_def)
next
  case False
  have p: "(0::rat) < 2 powi n" for n by simp
  have mono: "(2::rat) powi a \<le> 2 powi b" if "a \<le> b" for a b
    using that by (intro power_int_increasing) simp_all
  define x :: rat where "x = of_int \<bar>m\<bar> * 2 powi e"
  have ax: "\<bar>of_int m * (2::rat) powi e\<bar> = x" by (simp add: x_def abs_mult)
  have x: "0 < x" using False p [of e] by (simp add: x_def)
  have "(of_int \<bar>m\<bar> :: rat) < of_int (2 ^ 53)" using m by (simp only: of_int_less_iff)
  then have "x < of_int (2 ^ 53) * 2 powi e" unfolding x_def using p [of e]
    by (simp only: mult_less_cancel_right_pos)
  also have "\<dots> = 2 powi (53 + e)" by (simp add: power_int_add)
  finally have x_hi: "x < 2 powi (53 + e)" .
  define i where "i = ilog2 x"
  have i: "2 powi i \<le> x" using ilog2_bounds(1) [OF x] by (simp add: i_def)
  have i_e: "i < 53 + e"
  proof (rule ccontr)
    assume "\<not> i < 53 + e"
    then have "(2::rat) powi (53 + e) \<le> 2 powi i" by (intro mono) simp
    then show False using i x_hi by linarith
  qed
  define e' where "e' = max (i - 52) (- 1074)"
  have e': "e' \<le> e" using i_e e by (simp add: e'_def)
  define k where "k = \<bar>m\<bar> * 2 ^ nat (e - e')"
  have z: "x / 2 powi e' = of_int k"
  proof -
    have "x / 2 powi e' = of_int \<bar>m\<bar> * (2 powi e / 2 powi e')" by (simp add: x_def)
    also have "2 powi e / (2::rat) powi e' = 2 powi (e - e')" by (simp add: power_int_diff)
    also have "\<dots> = of_int (2 ^ nat (e - e'))" using e' by (simp add: power_int_def)
    finally show ?thesis by (simp add: k_def)
  qed
  have y: "of_int (round_half_even (x / 2 powi e')) * 2 powi e' = x"
    unfolding z round_half_even_of_int using z p [of e'] by (simp add: field_simps)
  have "x < 2 powi 1024"
  proof -
    have "(2::rat) powi (53 + e) \<le> 2 powi 1024" using e by (intro mono) simp
    then show ?thesis using x_hi by linarith
  qed
  moreover have "sgn (of_int m * (2::rat) powi e) * x = of_int m * 2 powi e"
    unfolding ax [symmetric] by (simp only: sgn_mult_abs)
  moreover have "of_int m * (2::rat) powi e \<noteq> 0" using False by simp
  ultimately show ?thesis
    unfolding round_double_def ax i_def [symmetric] e'_def [symmetric] Let_def y
    by (simp only: if_False not_le [symmetric])
qed

lemma round_double_int: "\<bar>m\<bar> < 2 ^ 53 \<Longrightarrow> round_double (of_int m) = Dbl (of_int m)"
  using round_double_exact [of m 0] by simp

lemma u64_to_double_finite:
  "\<exists>y. u64_to_double w = Dbl y \<and> 0 \<le> y \<and> y \<le> 2 ^ 64 \<and> (w \<noteq> 0 \<longrightarrow> 1 \<le> y)"
proof (cases "w = 0")
  case True
  then show ?thesis by (simp add: u64_to_double_def round_double_def)
next
  case False
  then have "uint w \<noteq> 0" by (simp add: uint_0_iff)
  then have "1 \<le> uint w" using uint_ge_0 [of w] by linarith
  then have "(of_int 1 :: rat) \<le> of_int (uint w)" by (simp only: of_int_le_iff)
  then have lo: "(2::rat) powi 0 \<le> of_int (uint w)" by (simp only: power_int_0_right of_int_1)
  have "uint w < 2 ^ 64" using uint_lt2p [of w] by simp
  then have "uint w \<le> 2 ^ 64" by simp
  then have "(of_int (uint w) :: rat) \<le> of_int (2 ^ 64)" by (simp only: of_int_le_iff)
  moreover have "(of_int (2 ^ 64) :: rat) = 2 powi 64" by simp
  ultimately have hi: "(of_int (uint w) :: rat) \<le> 2 powi 64" by (simp only:)
  obtain y where "round_double (of_int (uint w)) = Dbl y" "2 powi 0 \<le> y" "y \<le> 2 powi 64"
    using round_double_bounds [OF lo hi] by auto
  then show ?thesis by (auto simp: u64_to_double_def)
qed

lemma dmul_100_not_NaN: "x \<noteq> NaN \<Longrightarrow> dmul x (Dbl 100) \<noteq> NaN"
  by (cases x) (simp_all add: round_double_not_NaN)

lemma ddiv_u64_not_NaN:
  assumes "b \<noteq> 0"
  shows "ddiv (u64_to_double a) (u64_to_double b) \<noteq> NaN"
proof -
  obtain x where x: "u64_to_double a = Dbl x" using u64_to_double_finite [of a] by blast
  obtain y where y: "u64_to_double b = Dbl y" "1 \<le> y"
    using u64_to_double_finite [of b] assms by blast
  then show ?thesis using x by (simp add: round_double_not_NaN)
qed

lemma percent_of_not_NaN:
  "b \<noteq> 0 \<Longrightarrow> dmul (ddiv (u64_to_double a) (u64_to_double b)) (Dbl 100) \<noteq> NaN"
  by (intro dmul_100_not_NaN ddiv_u64_not_NaN)

lemma u64_to_double_eq_0_iff: "u64_to_double w = Dbl 0 \<longleftrightarrow> w = 0"
proof
  assume "u64_to_double w = Dbl 0"
  then show "w = 0" using u64_to_double_finite [of w] by (cases "w = 0") auto
next
  assume "w = 0"
  then show "u64_to_double w = Dbl 0" by (simp add: u64_to_double_def round_double_def)
qed

lemma round_double_numeral [simp]:
  "(numeral k :: int) < 2 ^ 53 \<Longrightarrow> round_double (numeral k) = Dbl (numeral k)"
  using round_double_int [of "numeral k"] by simp

lemma round_double_0 [simp]: "round_double 0 = Dbl 0"
  by (simp add: round_double_def)

lemma round_double_1 [simp]: "round_double 1 = Dbl 1"
  using round_double_int [of 1] by simp

lemma round_double_half [simp]: "round_double (1 / 2) = Dbl (1 / 2)"
  using round_double_exact [of 1 "- 1"] by (simp add: power_int_minus)

section \<open>The delta engine\<close>

text \<open>
  Claim C1. For every pair of samples held in the structure, with non-decreasing counters or
  with a counter that went down (the differences then wrap modulo \<open>2 ^ 64\<close>),
  \<^verbatim>\<open>calculate_cpu_usage\<close> returns, and the usage it stores is a finite number between 0 and
  100: never a NaN, never an infinity.
\<close>

theorem calculate_cpu_usage_in_range:
  "\<exists>r. usage_percent (calculate_cpu_usage stats) = Dbl r \<and> 0 \<le> r \<and> r \<le> 100"
proof -
  have "in_percent_range (usage_percent (calculate_cpu_usage stats))"
    by (simp add: calculate_cpu_usage_def Let_def clamp_percent_in_range percent_of_not_NaN)
  then show ?thesis by (auto simp: in_percent_range_def split: double.splits)
qed

theorem calculate_cpu_usage_in_range_witness:
  "idle regressed_sample < prev_idle regressed_sample
   \<and> (\<exists>r. usage_percent (calculate_cpu_usage regressed_sample) = Dbl r \<and> 0 \<le> r \<and> r \<le> 100)
   \<and> prev_idle increasing_sample \<le> idle increasing_sample
   \<and> (\<exists>r. usage_percent (calculate_cpu_usage increasing_sample) = Dbl r \<and> 0 \<le> r \<and> r \<le> 100)"
  using calculate_cpu_usage_in_range [of regressed_sample]
    calculate_cpu_usage_in_range [of increasing_sample]
  by (simp add: regressed_sample_def increasing_sample_def)

text \<open>
  Claim C8. When the two eight-field totals are equal, the usage stored is exactly 0, for
  identical samples and for different samples with equal totals alike; the division is then
  not evaluated. When the totals differ, the divisor of the division is not zero.
\<close>

theorem calculate_cpu_usage_zero_delta:
  "(curr_total stats = prev_total stats \<longrightarrow> usage_percent (calculate_cpu_usage stats) = Dbl 0)
   \<and> (curr_total stats \<noteq> prev_total stats \<longrightarrow> u64_to_double (total_diff stats) \<noteq> Dbl 0)"
  by (simp add: calculate_cpu_usage_def total_diff_def clamp_percent_zero u64_to_double_eq_0_iff)

theorem calculate_cpu_usage_zero_delta_witness:
  "curr_total equal_totals_sample = prev_total equal_totals_sample
   \<and> curr_total equal_totals_sample \<noteq> 0
   \<and> user equal_totals_sample \<noteq> prev_user equal_totals_sample
   \<and> usage_percent (calculate_cpu_usage equal_totals_sample) = Dbl 0
   \<and> curr_total increasing_sample \<noteq> prev_total increasing_sample
   \<and> u64_to_double (total_diff increasing_sample) \<noteq> Dbl 0"
proof -
  have e: "curr_total equal_totals_sample = prev_total equal_totals_sample"
    by (simp add: curr_total_def prev_total_def equal_totals_sample_def)
  have n: "curr_total increasing_sample \<noteq> prev_total increasing_sample"
    by (simp add: curr_total_def prev_total_def increasing_sample_def)
  show ?thesis
    using calculate_cpu_usage_zero_delta [of equal_totals_sample]
      calculate_cpu_usage_zero_delta [of increasing_sample] e n
    by (simp add: curr_total_def prev_total_def equal_totals_sample_def)
qed

section \<open>Rendering\<close>

lemma sum_of_deltas_eq: "sum_of_deltas cpu = total_diff cpu"
  by (simp add: sum_of_deltas_def total_diff_def curr_total_def prev_total_def)

text \<open>
  Claim C2, as stated, fails: with one tick of idle time and one tick of I/O wait the source
  prints an idle share of 50, the specification's combined idle and iowait share is 100.
\<close>

theorem idle_share_counterexample:
  "idle_share iowait_sample = Dbl 50 \<and> spec_idle_share iowait_sample = Dbl 100"
  by (simp add: idle_share_def spec_idle_share_def iowait_sample_def total_diff_def
      curr_total_def prev_total_def u64_to_double_def)

text \<open>
  Claim C2, amended. The three shares printed beside the headline usage have the same
  denominator, the total delta of the delta engine, which is the sum of the eight field
  deltas modulo \<open>2 ^ 64\<close>; each share is the delta of its own single field over it, times 100:
  the idle share is computed from the idle delta alone, without the iowait delta.
\<close>

theorem cpu_shares:
  "user_share cpu = dmul (ddiv (u64_to_double (user cpu - prev_user cpu))
                               (u64_to_double (total_diff cpu))) (Dbl 100)
   \<and> system_share cpu = dmul (ddiv (u64_to_double (system cpu - prev_system cpu))
                                  (u64_to_double (total_diff cpu))) (Dbl 100)
   \<and> idle_share cpu = dmul (ddiv (u64_to_double (idle cpu - prev_idle cpu))
                                (u64_to_double (total_diff cpu))) (Dbl 100)
   \<and> total_diff cpu = sum_of_deltas cpu"
  by (simp add: user_share_def system_share_def idle_share_def sum_of_deltas_eq
      total_diff_def curr_total_def prev_total_def)

text \<open>
  Claim C4, as stated, fails: a CPU usage of exactly 80 is shown yellow, the moderate tier,
  where the specification's classifier with the cuts 60 and 80 gives the high tier.
\<close>

theorem severity_boundary_counterexample:
  "tier_of_color (cpu_color (Dbl 80)) = Moderate
   \<and> spec_classify (Dbl 80) (Dbl 60) (Dbl 80) = High"
  by (simp add: cpu_color_def spec_classify_def dgreater_def)

text \<open>
  Claim C4, amended. With the cuts 60 and 80 for the CPU, 75 and 90 for memory, 80 and 90
  for the disk: a percentage below the low cut is green (normal), a percentage above the low
  cut and up to the high cut, the high cut included, is yellow (moderate), and a percentage is
  red (high) exactly when it is above the high cut. Nothing is said of a percentage equal to
  the low cut.
\<close>

theorem severity_tiers:
  "(r < 60 \<longrightarrow> cpu_color (Dbl r) = GREEN)
   \<and> (60 < r \<and> r \<le> 80 \<longrightarrow> cpu_color (Dbl r) = YELLOW)
   \<and> (cpu_color (Dbl r) = RED \<longleftrightarrow> 80 < r)
   \<and> (r < 75 \<longrightarrow> mem_color (Dbl r) = GREEN)
   \<and> (75 < r \<and> r \<le> 90 \<longrightarrow> mem_color (Dbl r) = YELLOW)
   \<and> (mem_color (Dbl r) = RED \<longleftrightarrow> 90 < r)
   \<and> (r < 80 \<longrightarrow> disk_color (Dbl r) = GREEN)
   \<and> (80 < r \<and> r \<le> 90 \<longrightarrow> disk_color (Dbl r) = YELLOW)
   \<and> (disk_color (Dbl r) = RED \<longleftrightarrow> 90 < r)"
  by (simp add: cpu_color_def mem_color_def disk_color_def dgreater_def)

theorem severity_tiers_witness:
  "(50::rat) < 60 \<and> cpu_color (Dbl 50) = GREEN \<and> mem_color (Dbl 50) = GREEN
   \<and> disk_color (Dbl 50) = GREEN
   \<and> (60::rat) < 80 \<and> cpu_color (Dbl 80) = YELLOW
   \<and> (75::rat) < 90 \<and> mem_color (Dbl 90) = YELLOW \<and> disk_color (Dbl 90) = YELLOW
   \<and> (90::rat) < 95 \<and> cpu_color (Dbl 95) = RED \<and> mem_color (Dbl 95) = RED
   \<and> disk_color (Dbl 95) = RED"
  using severity_tiers [of 50] severity_tiers [of 80] severity_tiers [of 90]
    severity_tiers [of 95]
  by simp

section \<open>The memory sampler\<close>

lemmas scan_defs = sscanf_meminfo_def scan_unsigned_def isspace_def isdigit_def dec_value_def

lemma mem_percent_in_range:
  "in_percent_range (clamp_percent (if 0 < t then dmul (ddiv (u64_to_double u) (u64_to_double t)) (Dbl 100) else Dbl 0))"
  by (rule clamp_percent_in_range) (simp add: percent_of_not_NaN word_greater_zero_iff)

lemma in_percent_rangeD: "in_percent_range d \<Longrightarrow> \<exists>r. d = Dbl r \<and> 0 \<le> r \<and> r \<le> 100"
  by (auto simp: in_percent_range_def split: double.splits)

lemma word_diff_le_iff: "(a - b \<le> a) \<longleftrightarrow> (b \<le> a)" for a b :: u64
  by (rule word_sub_le_iff)

lemma word_diff3_le_iff: "(t - f - b - c \<le> t) \<longleftrightarrow> (f + b + c \<le> t)" for t f b c :: u64
  by (simp add: diff_diff_eq word_sub_le_iff add.assoc)

text \<open>
  Claim C5, as stated, fails: a source that reports more available memory than total memory
  leaves the wrapped difference in the used figure, far above the total.
\<close>

theorem overcommitted_counterexample:
  "fst (read_memory_stats (Some overcommitted_meminfo) zero_memory) = 0
   \<and> mem_total (snd (read_memory_stats (Some overcommitted_meminfo) zero_memory)) = 1000
   \<and> mem_used (snd (read_memory_stats (Some overcommitted_meminfo) zero_memory))
       = 18446744073709550616
   \<and> \<not> mem_used (snd (read_memory_stats (Some overcommitted_meminfo) zero_memory))
         \<le> mem_total (snd (read_memory_stats (Some overcommitted_meminfo) zero_memory))"
  by (simp add: read_memory_stats_def overcommitted_meminfo_def zero_memory_def meminfo_line_def
      scan_defs Let_def)

text \<open>
  Claim C5, amended. After a successful read the usage percentage is a finite number between
  0 and 100, and the used figure is total minus available modulo \<open>2 ^ 64\<close> for the figures
  of the snapshot; it is at most the total exactly when the available figure of the snapshot
  is at most the total: the used figure itself is not clamped.
\<close>

theorem read_memory_stats_snapshot:
  "(\<exists>r. mem_usage_percent (snd (read_memory_stats (Some lines) stats)) = Dbl r \<and> 0 \<le> r \<and> r \<le> 100)
   \<and> mem_used (snd (read_memory_stats (Some lines) stats))
       = mem_total (snd (read_memory_stats (Some lines) stats))
         - mem_available (snd (read_memory_stats (Some lines) stats))
   \<and> (mem_used (snd (read_memory_stats (Some lines) stats))
         \<le> mem_total (snd (read_memory_stats (Some lines) stats))
        \<longleftrightarrow> mem_available (snd (read_memory_stats (Some lines) stats))
         \<le> mem_total (snd (read_memory_stats (Some lines) stats)))"
  by (simp add: read_memory_stats_def Let_def mem_percent_in_range in_percent_rangeD
      word_diff_le_iff word_diff3_le_iff diff_diff_eq add.assoc)

theorem read_memory_stats_snapshot_witness:
  "mem_available (snd (read_memory_stats (Some fallback_meminfo) zero_memory)) = 500
   \<and> mem_total (snd (read_memory_stats (Some fallback_meminfo) zero_memory)) = 1000
   \<and> mem_used (snd (read_memory_stats (Some fallback_meminfo) zero_memory)) = 500
   \<and> mem_used (snd (read_memory_stats (Some fallback_meminfo) zero_memory))
       \<le> mem_total (snd (read_memory_stats (Some fallback_meminfo) zero_memory))"
proof -
  have a: "mem_available (snd (read_memory_stats (Some fallback_meminfo) zero_memory)) = 500"
    and t: "mem_total (snd (read_memory_stats (Some fallback_meminfo) zero_memory)) = 1000"
    by (simp_all add: read_memory_stats_def fallback_meminfo_def zero_memory_def
        meminfo_line_def scan_defs Let_def)
  show ?thesis
    using read_memory_stats_snapshot [of fallback_meminfo zero_memory] by (simp add: a t)
qed

lemma meminfo_lines_total:
  "\<not> reports ''MemTotal:'' lines \<Longrightarrow> mem_total (meminfo_lines lines s) = mem_total s"
  by (induction lines arbitrary: s) (auto simp: reports_def meminfo_line_def split: option.splits)

lemma meminfo_lines_available:
  "\<not> reports ''MemAvailable:'' lines \<Longrightarrow> mem_available (meminfo_lines lines s) = mem_available s"
  by (induction lines arbitrary: s) (auto simp: reports_def meminfo_line_def split: option.splits)

lemma meminfo_lines_free:
  "\<not> reports ''MemFree:'' lines \<Longrightarrow> mem_free (meminfo_lines lines s) = mem_free s"
  by (induction lines arbitrary: s) (auto simp: reports_def meminfo_line_def split: option.splits)

lemma meminfo_lines_buffers:
  "\<not> reports ''Buffers:'' lines \<Longrightarrow> mem_buffers (meminfo_lines lines s) = mem_buffers s"
  by (induction lines arbitrary: s) (auto simp: reports_def meminfo_line_def split: option.splits)

lemma meminfo_lines_cached:
  "\<not> reports ''Cached:'' lines \<Longrightarrow> mem_cached (meminfo_lines lines s) = mem_cached s"
  by (induction lines arbitrary: s) (auto simp: reports_def meminfo_line_def split: option.splits)

text \<open>
  Claim C6, as stated, fails: an opened source without any line is read with success.
\<close>

theorem empty_source_counterexample:
  "fst (read_memory_stats (Some []) zero_memory) = 0"
  by (simp add: read_memory_stats_def Let_def)

text \<open>
  Claim C6, amended. \<^verbatim>\<open>read_memory_stats\<close> fails exactly when the source cannot be opened.
  Every opened source succeeds: an empty one, one with keys missing, one with lines that do
  not convert; a key that no line reports leaves its figure at 0.
\<close>

theorem read_memory_stats_error_iff:
  "(fst (read_memory_stats src stats) = - 1 \<longleftrightarrow> src = None)
   \<and> (fst (read_memory_stats src stats) = 0 \<longleftrightarrow> src \<noteq> None)
   \<and> (\<forall>lines. src = Some lines \<longrightarrow>
        (\<not> reports ''MemTotal:'' lines \<longrightarrow> mem_total (snd (read_memory_stats src stats)) = 0)
      \<and> (\<not> reports ''MemFree:'' lines \<longrightarrow> mem_free (snd (read_memory_stats src stats)) = 0)
      \<and> (\<not> reports ''Buffers:'' lines \<longrightarrow> mem_buffers (snd (read_memory_stats src stats)) = 0)
      \<and> (\<not> reports ''Cached:'' lines \<longrightarrow> mem_cached (snd (read_memory_stats src stats)) = 0))"
  by (cases src)
     (simp_all add: read_memory_stats_def Let_def meminfo_lines_total meminfo_lines_free
        meminfo_lines_buffers meminfo_lines_cached)

theorem read_memory_stats_error_iff_witness:
  "fst (read_memory_stats None stale_memory) = - 1
   \<and> fst (read_memory_stats (Some malformed_meminfo) stale_memory) = 0
   \<and> \<not> reports ''MemTotal:'' malformed_meminfo
   \<and> mem_total (snd (read_memory_stats (Some malformed_meminfo) stale_memory)) = 0
   \<and> \<not> reports ''Buffers:'' malformed_meminfo
   \<and> mem_buffers (snd (read_memory_stats (Some malformed_meminfo) stale_memory)) = 0
   \<and> \<not> reports ''Cached:'' malformed_meminfo
   \<and> mem_cached (snd (read_memory_stats (Some malformed_meminfo) stale_memory)) = 0
   \<and> \<not> reports ''MemFree:'' []
   \<and> mem_free (snd (read_memory_stats (Some []) stale_memory)) = 0"
proof -
  have r: "\<not> reports ''MemTotal:'' malformed_meminfo" "\<not> reports ''Buffers:'' malformed_meminfo"
    "\<not> reports ''Cached:'' malformed_meminfo" "\<not> reports ''MemFree:'' []"
    by (simp_all add: reports_def malformed_meminfo_def scan_defs Let_def)
  show ?thesis
    using read_memory_stats_error_iff [of None stale_memory]
      read_memory_stats_error_iff [of "Some malformed_meminfo" stale_memory]
      read_memory_stats_error_iff [of "Some []" stale_memory] r
    by simp
qed

text \<open>
  Claim C7 at a source that reports an available figure of 0: the source takes the fallback,
  \<open>used = 1000 - 100 - 0 - 0 = 900\<close> and \<open>available = 100\<close>, where total minus the reported
  available figure is 1000.
\<close>

theorem reported_zero_available:
  "reports ''MemAvailable:'' zero_available_meminfo
   \<and> fst (read_memory_stats (Some zero_available_meminfo) zero_memory) = 0
   \<and> mem_total (snd (read_memory_stats (Some zero_available_meminfo) zero_memory)) = 1000
   \<and> mem_used (snd (read_memory_stats (Some zero_available_meminfo) zero_memory)) = 900
   \<and> mem_available (snd (read_memory_stats (Some zero_available_meminfo) zero_memory)) = 100"
  by (simp add: reports_def read_memory_stats_def zero_available_meminfo_def zero_memory_def
      meminfo_line_def scan_defs Let_def)

text \<open>The fallback on the sample of the specification: 500 used, 500 available, 50 percent.\<close>

lemma read_memory_stats_fallback_example:
  "\<not> reports ''MemAvailable:'' fallback_meminfo
   \<and> read_memory_stats (Some fallback_meminfo) stale_memory =
       (0, \<lparr>mem_total = 1000, mem_available = 500, mem_used = 500, mem_free = 200,
            mem_buffers = 50, mem_cached = 250, mem_usage_percent = Dbl 50\<rparr>)"
  by (simp add: reports_def read_memory_stats_def fallback_meminfo_def stale_memory_def
      meminfo_line_def scan_defs Let_def u64_to_double_def clamp_percent_def dgreater_def)

lemma read_memory_stats_absent_available:
  assumes "\<not> reports ''MemAvailable:'' lines"
  shows "mem_used (snd (read_memory_stats (Some lines) stats))
           = mem_total (snd (read_memory_stats (Some lines) stats))
             - mem_free (snd (read_memory_stats (Some lines) stats))
             - mem_buffers (snd (read_memory_stats (Some lines) stats))
             - mem_cached (snd (read_memory_stats (Some lines) stats))"
    and "mem_available (snd (read_memory_stats (Some lines) stats))
           = mem_free (snd (read_memory_stats (Some lines) stats))
             + mem_buffers (snd (read_memory_stats (Some lines) stats))
             + mem_cached (snd (read_memory_stats (Some lines) stats))"
  using assms by (simp_all add: read_memory_stats_def Let_def meminfo_lines_available)

section \<open>Reading the CPU counters: the retained sample\<close>

lemmas cpu_scan_defs = sscanf_cpu_def scan_unsigned_def isspace_def isdigit_def dec_value_def

lemma fold_updates_keep:
  assumes "\<And>upd f s. upd \<in> set fs \<Longrightarrow> P (upd f s) = P s"
  shows "P (fold (\<lambda>(upd, v) s. upd (\<lambda>_. v) s) (zip fs vs) s) = P s"
  using assms
proof (induction fs arbitrary: vs s)
  case Nil
  then show ?case by simp
next
  case (Cons u fs)
  then show ?case by (cases vs) simp_all
qed

lemma store_fields_keeps_previous:
  "prev_user (store_fields vs s) = prev_user s"
  "prev_nice (store_fields vs s) = prev_nice s"
  "prev_system (store_fields vs s) = prev_system s"
  "prev_idle (store_fields vs s) = prev_idle s"
  "prev_iowait (store_fields vs s) = prev_iowait s"
  "prev_irq (store_fields vs s) = prev_irq s"
  "prev_softirq (store_fields vs s) = prev_softirq s"
  "prev_steal (store_fields vs s) = prev_steal s"
  unfolding store_fields_def
  by (rule fold_updates_keep, auto simp: cpu_fields_def)+

text \<open>
  Claim C10. Every call of \<^verbatim>\<open>read_cpu_stats\<close> that reads a line copies the eight current
  counters into the previous ones before it converts the line, whatever the conversion then
  gives: after a failed conversion (fewer than four values, return value \<open>-1\<close>) the structure
  has changed all the same, and the previous total against which the next delta is taken is
  the current total the call started from.
\<close>

theorem read_cpu_stats_overwrites_previous:
  "prev_user (snd (read_cpu_stats (FirstLine line) stats)) = user stats
   \<and> prev_nice (snd (read_cpu_stats (FirstLine line) stats)) = nice stats
   \<and> prev_system (snd (read_cpu_stats (FirstLine line) stats)) = system stats
   \<and> prev_idle (snd (read_cpu_stats (FirstLine line) stats)) = idle stats
   \<and> prev_iowait (snd (read_cpu_stats (FirstLine line) stats)) = iowait stats
   \<and> prev_irq (snd (read_cpu_stats (FirstLine line) stats)) = irq stats
   \<and> prev_softirq (snd (read_cpu_stats (FirstLine line) stats)) = softirq stats
   \<and> prev_steal (snd (read_cpu_stats (FirstLine line) stats)) = steal stats
   \<and> prev_total (snd (read_cpu_stats (FirstLine line) stats)) = curr_total stats
   \<and> fst (read_cpu_stats (FirstLine line) stats)
       = (if fst (sscanf_cpu line) < 4 then - 1 else 0)"
  by (simp add: read_cpu_stats_def Let_def split: prod.splits)
     (simp add: store_fields_keeps_previous store_previous_def prev_total_def curr_total_def)

lemma short_read:
  "read_cpu_stats (FirstLine short_stat_line) increasing_sample =
     (- 1, increasing_sample\<lparr>prev_user := 130, prev_nice := 2, prev_system := 45, prev_idle := 900,
        prev_iowait := 12, prev_irq := 1, prev_softirq := 3, prev_steal := 0, user := 5, nice := 6\<rparr>)"
  by (simp add: read_cpu_stats_def short_stat_line_def cpu_scan_defs Let_def eval_nat_numeral
      store_fields_def store_previous_def cpu_fields_def increasing_sample_def)

theorem read_cpu_stats_overwrites_previous_witness:
  "fst (read_cpu_stats (FirstLine short_stat_line) increasing_sample) = - 1
   \<and> prev_user increasing_sample = 100
   \<and> prev_user (snd (read_cpu_stats (FirstLine short_stat_line) increasing_sample)) = 130
   \<and> snd (read_cpu_stats (FirstLine short_stat_line) increasing_sample) \<noteq> increasing_sample
   \<and> fst (read_cpu_stats (FirstLine full_stat_line)
             (snd (read_cpu_stats (FirstLine short_stat_line) increasing_sample))) = 0
   \<and> prev_total (snd (read_cpu_stats (FirstLine full_stat_line)
             (snd (read_cpu_stats (FirstLine short_stat_line) increasing_sample))))
       = curr_total (snd (read_cpu_stats (FirstLine short_stat_line) increasing_sample))
   \<and> curr_total (snd (read_cpu_stats (FirstLine short_stat_line) increasing_sample)) = 972
   \<and> curr_total increasing_sample = 1093"
proof -
  have u: "prev_user (snd (read_cpu_stats (FirstLine short_stat_line) increasing_sample)) = 130"
    using read_cpu_stats_overwrites_previous [of short_stat_line increasing_sample]
    by (simp add: increasing_sample_def)
  have ne: "snd (read_cpu_stats (FirstLine short_stat_line) increasing_sample) \<noteq> increasing_sample"
  proof
    assume "snd (read_cpu_stats (FirstLine short_stat_line) increasing_sample) = increasing_sample"
    then have "prev_user (snd (read_cpu_stats (FirstLine short_stat_line) increasing_sample))
       = prev_user increasing_sample" by simp
    then show False using u by (simp add: increasing_sample_def)
  qed
  have ok: "fst (read_cpu_stats (FirstLine full_stat_line) s) = 0" for s
    by (simp add: read_cpu_stats_def full_stat_line_def cpu_scan_defs Let_def eval_nat_numeral
        split: prod.splits)
  show ?thesis
    using u ne ok
      read_cpu_stats_overwrites_previous [of full_stat_line
        "snd (read_cpu_stats (FirstLine short_stat_line) increasing_sample)"]
    by (simp add: short_read curr_total_def) (simp add: increasing_sample_def)
qed

section \<open>The polling loop\<close>


lemma renders_append [simp]: "renders (xs @ ys) \<longleftrightarrow> renders xs \<or> renders ys"
  by (simp add: renders_def)

lemma renders_simps [simp]:
  "renders [] = False" "renders (Stdout p # evs) = True"
  "renders (Stderr m # evs) = renders evs" "renders (Perror m # evs) = renders evs"
  "renders (Read_proc_stat # evs) = renders evs"
  "renders (Read_proc_meminfo # evs) = renders evs" "renders (Call_statvfs path # evs) = renders evs"
  by (simp_all add: renders_def)

text \<open>The lines of the samplers are error lines only, and a sampler writes one exactly when it fails.\<close>

lemma sampler_stderr_plain [simp]:
  "Read_proc_meminfo \<notin> set (read_cpu_stats_stderr src)"
  "Call_statvfs path \<notin> set (read_cpu_stats_stderr src)"
  "\<not> renders (read_cpu_stats_stderr src)"
  "Call_statvfs path \<notin> set (read_memory_stats_stderr msrc)"
  "\<not> renders (read_memory_stats_stderr msrc)"
  "\<not> renders (read_disk_stats_stderr res)"
  by (simp_all add: read_cpu_stats_stderr_def read_memory_stats_stderr_def
      read_disk_stats_stderr_def split: proc_stat.splits option.splits)


lemma read_memory_stats_stderr_iff:
  "read_memory_stats_stderr src \<noteq> [] \<longleftrightarrow> fst (read_memory_stats src stats) \<noteq> 0"
  by (cases src) (simp_all add: read_memory_stats_stderr_def read_memory_stats_def Let_def)

lemma read_disk_stats_stderr_iff:
  "read_disk_stats_stderr res \<noteq> [] \<longleftrightarrow> fst (read_disk_stats res path stats) \<noteq> 0"
  by (cases res) (simp_all add: read_disk_stats_stderr_def read_disk_stats_def Let_def)










section \<open>The unit converter\<close>

lemma dge_Dbl [simp]: "dge (Dbl a) (Dbl b) \<longleftrightarrow> b \<le> a"
  by (auto simp: dge_def)

lemma u64_to_double_small:
  assumes "uint w < 2 ^ 53"
  shows "u64_to_double w = Dbl (of_int (uint w))"
proof -
  have "\<bar>uint w\<bar> < 2 ^ 53" using assms uint_ge_0 [of w] by simp
  then show ?thesis unfolding u64_to_double_def by (rule round_double_int)
qed

lemma u64_to_double_ge_1024:
  assumes "1024 \<le> uint w"
  shows "\<exists>y. u64_to_double w = Dbl y \<and> 1024 \<le> y \<and> y \<le> 2 ^ 64"
proof -
  have "(of_int 1024 :: rat) \<le> of_int (uint w)" using assms by (simp only: of_int_le_iff)
  moreover have "(of_int 1024 :: rat) = 2 powi 10" by simp
  ultimately have lo: "(2::rat) powi 10 \<le> of_int (uint w)" by (simp only:)
  have "uint w \<le> 2 ^ 64" using uint_lt2p [of w] by simp
  then have "(of_int (uint w) :: rat) \<le> of_int (2 ^ 64)" by (simp only: of_int_le_iff)
  moreover have "(of_int (2 ^ 64) :: rat) = 2 powi 64" by simp
  ultimately have hi: "(of_int (uint w) :: rat) \<le> 2 powi 64" by (simp only:)
  obtain y where "round_double (of_int (uint w)) = Dbl y" "2 powi 10 \<le> y" "y \<le> 2 powi 64"
    using round_double_bounds [OF lo hi] by auto
  then show ?thesis by (auto simp: u64_to_double_def)
qed

lemma dge_1024_u64: "dge (u64_to_double w) (Dbl 1024) \<longleftrightarrow> 1024 \<le> uint w"
proof (cases "1024 \<le> uint w")
  case True
  then show ?thesis using u64_to_double_ge_1024 [of w] by auto
next
  case False
  then have "uint w < 2 ^ 53" by simp
  then have "u64_to_double w = Dbl (of_int (uint w))" by (rule u64_to_double_small)
  moreover have "\<not> (1024::rat) \<le> of_int (uint w)" using False by linarith
  ultimately show ?thesis using False by simp
qed

lemma ddiv_1024_bounds:
  assumes "2 powi (k + 10) \<le> r" and "r \<le> 2 ^ 64" and "0 \<le> k"
  shows "\<exists>r'. ddiv (Dbl r) (Dbl 1024) = Dbl r' \<and> 2 powi k \<le> r' \<and> r' \<le> 2 ^ 54"
proof -
  have "(2::rat) powi (k + 10) = 2 powi k * 1024" by (simp add: power_int_add)
  then have lo: "2 powi k \<le> r / 1024" using assms(1) by (simp add: le_divide_eq)
  have hi: "r / 1024 \<le> 2 powi 54" using assms(2) by (simp add: divide_le_eq)
  obtain r' where "round_double (r / 1024) = Dbl r'" "2 powi k \<le> r'" "r' \<le> 2 powi 54"
    using round_double_bounds [OF lo hi] assms(3) by auto
  then show ?thesis by auto
qed

lemma show_dec_digit: "0 \<le> n \<Longrightarrow> n < 10 \<Longrightarrow> show_dec n = [digit_char n]"
  by (simp add: show_dec.simps)

lemma length_show_dec: "0 < k \<Longrightarrow> n < 10 ^ k \<Longrightarrow> length (show_dec n) \<le> k"
proof (induction k arbitrary: n)
  case 0
  then show ?case by simp
next
  case (Suc k)
  show ?case
  proof (cases "n < 10")
    case True
    then show ?thesis by (simp add: show_dec.simps)
  next
    case False
    then have k: "0 < k" using Suc.prems by (cases k) simp_all
    have "n div 10 < 10 ^ k" using Suc.prems by simp
    then have "length (show_dec (n div 10)) \<le> k" using Suc.IH k by simp
    then show ?thesis using False by (simp add: show_dec.simps [of n])
  qed
qed

lemma printf_1f_nonneg:
  assumes "0 \<le> r"
  shows "printf_1f (Dbl r) = show_dec (round_half_even (r * 10) div 10) @ ''.''
           @ [digit_char (round_half_even (r * 10) mod 10)]"
proof -
  have "0 \<le> round_half_even (r * 10) mod 10" "round_half_even (r * 10) mod 10 < 10" by simp_all
  then have "show_dec (round_half_even (r * 10) mod 10) = [digit_char (round_half_even (r * 10) mod 10)]"
    by (rule show_dec_digit)
  then show ?thesis using assms by (simp add: printf_1f_def Let_def)
qed

lemma format_bytes_loop_ok:
  assumes "0 \<le> r" "r \<le> 2 ^ 64" "ui \<le> 4"
  shows "loop_ok r ui"
  using assms
proof (induction "4 - ui" arbitrary: r ui)
  case 0
  then have "ui = 4" by simp
  then show ?case using "0.prems" by (simp add: loop_ok_def format_bytes_loop.simps [of _ 4])
next
  case (Suc n)
  then have ui: "ui < 4" by simp
  show ?case
  proof (cases "r < 1024")
    case True
    then have "format_bytes_loop (Dbl r) ui = (Dbl r, ui)"
      by (simp add: format_bytes_loop.simps [of "Dbl r" ui])
    then show ?thesis using True Suc.prems ui by (simp add: loop_ok_def)
  next
    case False
    then have "2 powi (0 + 10) \<le> r" by simp
    then obtain r1 where r1: "ddiv (Dbl r) (Dbl 1024) = Dbl r1" "2 powi 0 \<le> r1" "r1 \<le> 2 ^ 54"
      using ddiv_1024_bounds [of 0 r] Suc.prems by blast
    have step: "format_bytes_loop (Dbl r) ui = format_bytes_loop (Dbl r1) (ui + 1)"
      using False ui r1(1) by (simp add: format_bytes_loop.simps [of "Dbl r" ui])
    have "n = 4 - (ui + 1)" using Suc.hyps(2) by simp
    moreover have "0 \<le> r1" using r1(2) by simp
    moreover have "r1 \<le> 2 ^ 64" using r1(3) by simp
    moreover have "ui + 1 \<le> 4" using ui by simp
    ultimately have ih: "loop_ok r1 (ui + 1)" by (rule Suc.hyps(1))
    define u where "u = snd (format_bytes_loop (Dbl r1) (ui + 1))"
    have u: "ui + 1 \<le> u" "u \<le> 4" using ih by (simp_all add: loop_ok_def u_def)
    have e: "u - ui = Suc (u - (ui + 1))" using u(1) by arith
    have "((\<lambda>x. ddiv x (Dbl 1024)) ^^ (u - ui)) (Dbl r)
        = ((\<lambda>x. ddiv x (Dbl 1024)) ^^ (Suc (u - (ui + 1)))) (Dbl r)"
      by (simp only: e)
    also have "\<dots> = ((\<lambda>x. ddiv x (Dbl 1024)) ^^ (u - (ui + 1))) (Dbl r1)"
      by (simp only: funpow_Suc_right o_apply r1(1))
    finally have pow: "((\<lambda>x. ddiv x (Dbl 1024)) ^^ (u - ui)) (Dbl r)
        = ((\<lambda>x. ddiv x (Dbl 1024)) ^^ (u - (ui + 1))) (Dbl r1)" .
    obtain r' where r': "fst (format_bytes_loop (Dbl r1) (ui + 1)) = Dbl r'" "0 \<le> r'"
        "r1 \<le> 2 ^ 54 \<or> ui + 1 < u \<longrightarrow> r' \<le> 2 ^ 54" "u < 4 \<longrightarrow> r' < 1024"
      using ih unfolding loop_ok_def u_def by blast
    have f: "fst (format_bytes_loop (Dbl r1) (ui + 1))
        = ((\<lambda>x. ddiv x (Dbl 1024)) ^^ (u - (ui + 1))) (Dbl r1)"
      using ih unfolding loop_ok_def u_def by blast
    have c1: "\<exists>r'. fst (format_bytes_loop (Dbl r) ui) = Dbl r' \<and> 0 \<le> r'
        \<and> (r \<le> 2 ^ 54 \<or> ui < snd (format_bytes_loop (Dbl r) ui) \<longrightarrow> r' \<le> 2 ^ 54)
        \<and> (snd (format_bytes_loop (Dbl r) ui) < 4 \<longrightarrow> r' < 1024)"
      unfolding step u_def [symmetric] using r' r1(3) by blast
    have c2: "ui \<le> snd (format_bytes_loop (Dbl r) ui)"
      unfolding step u_def [symmetric] using u(1) by simp
    have c3: "snd (format_bytes_loop (Dbl r) ui) \<le> 4"
      unfolding step u_def [symmetric] using u(2) by simp
    have c4: "snd (format_bytes_loop (Dbl r) ui) = ui \<longleftrightarrow> r < 1024 \<or> ui = 4"
      unfolding step u_def [symmetric] using u(1) False ui by simp
    have c5: "fst (format_bytes_loop (Dbl r) ui)
        = ((\<lambda>x. ddiv x (Dbl 1024)) ^^ (snd (format_bytes_loop (Dbl r) ui) - ui)) (Dbl r)"
      unfolding step u_def [symmetric] pow by (rule f)
    show ?thesis unfolding loop_ok_def using c1 c2 c3 c4 c5 by blast
  qed
qed

lemma u64_to_double_ge_2_50:
  assumes "2 ^ 50 \<le> uint w"
  shows "\<exists>y. u64_to_double w = Dbl y \<and> 2 powi 50 \<le> y \<and> y \<le> 2 ^ 64"
proof -
  have "(of_int (2 ^ 50) :: rat) \<le> of_int (uint w)" using assms by (simp only: of_int_le_iff)
  moreover have "(of_int (2 ^ 50) :: rat) = 2 powi 50" by simp
  ultimately have lo: "(2::rat) powi 50 \<le> of_int (uint w)" by (simp only:)
  have "uint w \<le> 2 ^ 64" using uint_lt2p [of w] by simp
  then have "(of_int (uint w) :: rat) \<le> of_int (2 ^ 64)" by (simp only: of_int_le_iff)
  moreover have "(of_int (2 ^ 64) :: rat) = 2 powi 64" by simp
  ultimately have hi: "(of_int (uint w) :: rat) \<le> 2 powi 64" by (simp only:)
  obtain y where "round_double (of_int (uint w)) = Dbl y" "2 powi 50 \<le> y" "y \<le> 2 powi 64"
    using round_double_bounds [OF lo hi] by auto
  then show ?thesis by (auto simp: u64_to_double_def)
qed

lemma format_bytes_loop_step:
  "1024 \<le> r \<Longrightarrow> ddiv (Dbl r) (Dbl 1024) = d \<Longrightarrow> ui < 4 \<Longrightarrow> ui' = ui + 1
     \<Longrightarrow> format_bytes_loop (Dbl r) ui = format_bytes_loop d ui'"
  by (subst format_bytes_loop.simps) simp

lemma format_bytes_loop_large:
  assumes "2 powi 50 \<le> r" "r \<le> 2 ^ 64"
  shows "\<exists>r4. format_bytes_loop (Dbl r) 0 = (Dbl r4, 4) \<and> 1024 \<le> r4"
proof -
  have big: "1024 \<le> x" if "2 powi k \<le> x" "10 \<le> k" for x :: rat and k
  proof -
    have "(2::rat) powi 10 \<le> 2 powi k" using that(2) by (intro power_int_increasing) simp_all
    then show ?thesis using that(1) by simp
  qed
  obtain r1 where r1: "ddiv (Dbl r) (Dbl 1024) = Dbl r1" "2 powi 40 \<le> r1" "r1 \<le> 2 ^ 54"
    using ddiv_1024_bounds [of 40 r] assms by auto
  obtain r2 where r2: "ddiv (Dbl r1) (Dbl 1024) = Dbl r2" "2 powi 30 \<le> r2" "r2 \<le> 2 ^ 54"
    using ddiv_1024_bounds [of 30 r1] r1 by auto
  obtain r3 where r3: "ddiv (Dbl r2) (Dbl 1024) = Dbl r3" "2 powi 20 \<le> r3" "r3 \<le> 2 ^ 54"
    using ddiv_1024_bounds [of 20 r2] r2 by auto
  obtain r4 where r4: "ddiv (Dbl r3) (Dbl 1024) = Dbl r4" "2 powi 10 \<le> r4" "r4 \<le> 2 ^ 54"
    using ddiv_1024_bounds [of 10 r3] r3 by auto
  have "format_bytes_loop (Dbl r) 0 = format_bytes_loop (Dbl r1) 1"
    by (rule format_bytes_loop_step [OF big [OF assms(1)] r1(1)]) simp_all
  also have "\<dots> = format_bytes_loop (Dbl r2) 2"
    by (rule format_bytes_loop_step [OF big [OF r1(2)] r2(1)]) simp_all
  also have "\<dots> = format_bytes_loop (Dbl r3) 3"
    by (rule format_bytes_loop_step [OF big [OF r2(2)] r3(1)]) simp_all
  also have "\<dots> = format_bytes_loop (Dbl r4) 4"
    by (rule format_bytes_loop_step [OF big [OF r3(2)] r4(1)]) simp_all
  also have "\<dots> = (Dbl r4, 4)" by (simp add: format_bytes_loop.simps [of "Dbl r4" 4])
  finally show ?thesis using big [OF r4(2)] by simp
qed

lemma snprintf_fits: "length text \<le> 31 \<Longrightarrow> snprintf buffer 32 text = text"
  by (simp add: snprintf_def)

lemma length_unit: "0 < i \<Longrightarrow> i \<le> 4 \<Longrightarrow> length (units ! i) = 2"
proof -
  assume "0 < i" "i \<le> 4"
  then have "i = 1 \<or> i = 2 \<or> i = 3 \<or> i = 4" by arith
  then show ?thesis by (auto simp: units_def)
qed

lemma format_bytes_in_bytes:
  assumes "uint bytes < 1024" "snd (format_bytes_loop (u64_to_double bytes) 0) = 0"
  shows "format_bytes bytes buffer 32 = show_dec (uint bytes) @ '' B''"
proof -
  have "uint bytes < 10 ^ 4" using assms(1) by simp
  then have "length (show_dec (uint bytes)) \<le> 4" by (intro length_show_dec) simp_all
  then have "length (show_dec (uint bytes) @ '' B'') \<le> 31" by simp
  then have "snprintf buffer 32 (show_dec (uint bytes) @ '' B'') = show_dec (uint bytes) @ '' B''"
    by (rule snprintf_fits)
  moreover obtain sz where "format_bytes_loop (u64_to_double bytes) 0 = (sz, 0)"
    using assms(2) by (cases "format_bytes_loop (u64_to_double bytes) 0") simp
  ultimately show ?thesis
    by (simp add: format_bytes_def format_bytes_text_def units_def)
qed

lemma format_bytes_scaled:
  assumes "format_bytes_loop (u64_to_double bytes) 0 = (Dbl r, ui)"
    and "0 < ui" "ui \<le> 4" "0 \<le> r" "r \<le> 2 ^ 54"
  shows "format_bytes bytes buffer 32
     = show_dec (round_half_even (r * 10) div 10) @ ''.''
       @ [digit_char (round_half_even (r * 10) mod 10)] @ '' '' @ units ! ui"
proof -
  define t where "t = round_half_even (r * 10)"
  have "r * 10 \<le> of_int (10 * 2 ^ 54)" using assms(5) by simp
  then have "t \<le> 10 * 2 ^ 54" unfolding t_def by (rule round_half_even_le)
  then have "t div 10 < 10 ^ 17" by simp
  then have "length (show_dec (t div 10)) \<le> 17" by (intro length_show_dec) simp_all
  then have "length (show_dec (t div 10) @ ''.'' @ [digit_char (t mod 10)] @ '' '' @ units ! ui) \<le> 31"
    using length_unit [OF assms(2,3)] by simp
  then have "snprintf buffer 32 (show_dec (t div 10) @ ''.'' @ [digit_char (t mod 10)] @ '' '' @ units ! ui)
      = show_dec (t div 10) @ ''.'' @ [digit_char (t mod 10)] @ '' '' @ units ! ui"
    by (rule snprintf_fits)
  then show ?thesis using assms(1,2) printf_1f_nonneg [OF assms(4)]
    by (simp add: format_bytes_def format_bytes_text_def t_def)
qed

lemma round_double_3_2 [simp]: "round_double (3 / 2) = Dbl (3 / 2)"
  using round_double_exact [of 3 "- 1"] by (simp add: power_int_minus)

lemma round_half_even_numeral [simp]: "round_half_even (numeral k) = numeral k"
  using round_half_even_of_int [of "numeral k"] by simp

lemma format_bytes_loop_stop:
  "r < 1024 \<or> ui = 4 \<Longrightarrow> format_bytes_loop (Dbl r) ui = (Dbl r, ui)"
  by (subst format_bytes_loop.simps) auto

lemma show_dec_digits:
  "show_dec 0 = ''0''" "show_dec 1 = ''1''"
  by (simp_all add: show_dec_digit digit_char_def)

lemma format_bytes_0: "format_bytes 0 buffer 32 = ''0 B''"
proof -
  have "format_bytes_loop (u64_to_double 0) 0 = (Dbl 0, 0)"
    by (simp add: u64_to_double_def format_bytes_loop_stop)
  then show ?thesis
    by (simp add: format_bytes_def format_bytes_text_def snprintf_def show_dec_digits units_def)
qed

lemma format_bytes_loop_1536: "format_bytes_loop (u64_to_double 1536) 0 = (Dbl (3 / 2), 1)"
proof -
  have "format_bytes_loop (Dbl 1536) 0 = format_bytes_loop (Dbl (3 / 2)) 1"
    by (rule format_bytes_loop_step) simp_all
  also have "\<dots> = (Dbl (3 / 2), 1)" by (rule format_bytes_loop_stop) simp
  finally show ?thesis by (simp add: u64_to_double_def)
qed

lemma format_bytes_1536: "format_bytes 1536 buffer 32 = ''1.5 KB''"
proof -
  have "printf_1f (Dbl (3 / 2)) = ''1.5''"
    by (simp add: printf_1f_nonneg show_dec_digits digit_char_def)
  then show ?thesis
    by (simp add: format_bytes_def format_bytes_text_def snprintf_def format_bytes_loop_1536
        units_def)
qed

lemma format_bytes_loop_GB: "format_bytes_loop (u64_to_double 1073741824) 0 = (Dbl 1, 3)"
proof -
  have "format_bytes_loop (Dbl 1073741824) 0 = format_bytes_loop (Dbl 1048576) 1"
    by (rule format_bytes_loop_step) simp_all
  also have "\<dots> = format_bytes_loop (Dbl 1024) 2"
    by (rule format_bytes_loop_step) simp_all
  also have "\<dots> = format_bytes_loop (Dbl 1) 3"
    by (rule format_bytes_loop_step) simp_all
  also have "\<dots> = (Dbl 1, 3)" by (rule format_bytes_loop_stop) simp
  finally show ?thesis by (simp add: u64_to_double_def)
qed

lemma format_bytes_GB: "format_bytes 1073741824 buffer 32 = ''1.0 GB''"
proof -
  have "printf_1f (Dbl 1) = ''1.0''"
    by (simp add: printf_1f_nonneg show_dec_digits digit_char_def)
  then show ?thesis
    by (simp add: format_bytes_def format_bytes_text_def snprintf_def format_bytes_loop_GB
        units_def)
qed

text \<open>
  Claim C9. For every 64-bit count, the loop of \<^verbatim>\<open>format_bytes\<close> divides the size by 1024
  as many times as the unit index it ends with, at most 4 times; it stops below TB only with
  a size below 1024, and at TB whatever the size: from \<open>2 ^ 50\<close> bytes on the index is 4
  and the size still at least 1024. The count stays in the byte unit exactly when it is below
  1024 and is then printed as the integer itself followed by \<open>B\<close>; every scaled size is
  printed with the digits of its integer part, a point, one decimal digit and the unit. The
  buffers of 32 characters of the callers hold every such text. In particular 0 gives
  \<open>0 B\<close>, 1536 gives \<open>1.5 KB\<close> and 1073741824 gives \<open>1.0 GB\<close>.
\<close>

theorem format_bytes_scaling:
  "\<exists>sz unit_index. format_bytes_loop (u64_to_double bytes) 0 = (sz, unit_index)
     \<and> unit_index \<le> 4
     \<and> sz = ((\<lambda>x. ddiv x (Dbl 1024)) ^^ unit_index) (u64_to_double bytes)
     \<and> (unit_index < 4 \<longrightarrow> dless sz (Dbl 1024))
     \<and> (unit_index = 0 \<longleftrightarrow> uint bytes < 1024)
     \<and> (2 ^ 50 \<le> uint bytes \<longrightarrow> unit_index = 4 \<and> dge sz (Dbl 1024))
     \<and> (unit_index = 0 \<longrightarrow> format_bytes bytes buffer 32 = show_dec (uint bytes) @ '' B'')
     \<and> (0 < unit_index \<longrightarrow>
          (\<exists>r. sz = Dbl r \<and> 0 \<le> r
             \<and> format_bytes bytes buffer 32
                 = show_dec (round_half_even (r * 10) div 10) @ ''.''
                   @ [digit_char (round_half_even (r * 10) mod 10)] @ '' '' @ units ! unit_index))
     \<and> format_bytes 0 buffer 32 = ''0 B''
     \<and> format_bytes 1536 buffer 32 = ''1.5 KB''
     \<and> format_bytes 1073741824 buffer 32 = ''1.0 GB''"
proof -
  obtain y where y: "u64_to_double bytes = Dbl y" "0 \<le> y" "y \<le> 2 ^ 64"
    using u64_to_double_finite [of bytes] by blast
  define sz where "sz = fst (format_bytes_loop (Dbl y) 0)"
  define ui where "ui = snd (format_bytes_loop (Dbl y) 0)"
  have pair: "format_bytes_loop (u64_to_double bytes) 0 = (sz, ui)"
    by (simp add: y(1) sz_def ui_def)
  have ok: "loop_ok y 0" using y(2,3) by (intro format_bytes_loop_ok) simp_all
  note k = ok [unfolded loop_ok_def]
  have "\<exists>r'. fst (format_bytes_loop (Dbl y) 0) = Dbl r' \<and> 0 \<le> r'
        \<and> (y \<le> 2 ^ 54 \<or> 0 < snd (format_bytes_loop (Dbl y) 0) \<longrightarrow> r' \<le> 2 ^ 54)
        \<and> (snd (format_bytes_loop (Dbl y) 0) < 4 \<longrightarrow> r' < 1024)"
    by (rule k [THEN conjunct1])
  then obtain r where r: "sz = Dbl r" "0 \<le> r" "0 < ui \<longrightarrow> r \<le> 2 ^ 54" "ui < 4 \<longrightarrow> r < 1024"
    unfolding sz_def ui_def by auto
  have ui4: "ui \<le> 4"
    unfolding ui_def by (rule k [THEN conjunct2, THEN conjunct2, THEN conjunct1])
  have "sz = ((\<lambda>x. ddiv x (Dbl 1024)) ^^ (ui - 0)) (Dbl y)"
    unfolding sz_def ui_def
    by (rule k [THEN conjunct2, THEN conjunct2, THEN conjunct2, THEN conjunct2])
  then have pow: "sz = ((\<lambda>x. ddiv x (Dbl 1024)) ^^ ui) (u64_to_double bytes)"
    by (simp add: y(1))
  have "ui = 0 \<longleftrightarrow> y < 1024 \<or> (0::nat) = 4"
    unfolding ui_def
    by (rule k [THEN conjunct2, THEN conjunct2, THEN conjunct2, THEN conjunct1])
  then have "ui = 0 \<longleftrightarrow> y < 1024" by simp
  moreover have "y < 1024 \<longleftrightarrow> uint bytes < 1024"
    using dge_1024_u64 [of bytes] by (simp add: y(1) not_le [symmetric])
  ultimately have zero: "ui = 0 \<longleftrightarrow> uint bytes < 1024" by simp
  have small: "ui < 4 \<longrightarrow> dless sz (Dbl 1024)" using r(1,4) by simp
  have large: "2 ^ 50 \<le> uint bytes \<longrightarrow> ui = 4 \<and> dge sz (Dbl 1024)"
  proof
    assume "2 ^ 50 \<le> uint bytes"
    then have "2 powi 50 \<le> y" using u64_to_double_ge_2_50 [of bytes] y(1) by auto
    then obtain r4 where "format_bytes_loop (Dbl y) 0 = (Dbl r4, 4)" "1024 \<le> r4"
      using format_bytes_loop_large [of y] y(3) by blast
    then show "ui = 4 \<and> dge sz (Dbl 1024)" by (simp add: sz_def ui_def)
  qed
  have bytes: "ui = 0 \<longrightarrow> format_bytes bytes buffer 32 = show_dec (uint bytes) @ '' B''"
    using zero pair by (auto intro: format_bytes_in_bytes)
  have scaled: "0 < ui \<longrightarrow> (\<exists>r. sz = Dbl r \<and> 0 \<le> r
      \<and> format_bytes bytes buffer 32
          = show_dec (round_half_even (r * 10) div 10) @ ''.''
            @ [digit_char (round_half_even (r * 10) mod 10)] @ '' '' @ units ! ui)"
  proof
    assume pos: "0 < ui"
    then have "r \<le> 2 ^ 54" using r(3) by simp
    then have "format_bytes bytes buffer 32
          = show_dec (round_half_even (r * 10) div 10) @ ''.''
            @ [digit_char (round_half_even (r * 10) mod 10)] @ '' '' @ units ! ui"
      using pair r(1,2) pos ui4 by (intro format_bytes_scaled) simp_all
    then show "\<exists>r. sz = Dbl r \<and> 0 \<le> r
      \<and> format_bytes bytes buffer 32
          = show_dec (round_half_even (r * 10) div 10) @ ''.''
            @ [digit_char (round_half_even (r * 10) mod 10)] @ '' '' @ units ! ui"
      using r(1,2) by blast
  qed
  show ?thesis
    by (intro exI conjI) (fact pair ui4 pow small zero large bytes scaled
        format_bytes_0 format_bytes_1536 format_bytes_GB)+
qed

lemma round_double_exbibyte:
  "round_double 1152921504606846976 = Dbl 1152921504606846976"
  using round_double_exact [of 1 60] by simp

lemma format_bytes_loop_exbibyte:
  "format_bytes_loop (u64_to_double exbibyte) 0 = (Dbl 1048576, 4)"
proof -
  have "format_bytes_loop (Dbl 1152921504606846976) 0 = format_bytes_loop (Dbl 1125899906842624) 1"
    by (rule format_bytes_loop_step) simp_all
  also have "\<dots> = format_bytes_loop (Dbl 1099511627776) 2"
    by (rule format_bytes_loop_step) simp_all
  also have "\<dots> = format_bytes_loop (Dbl 1073741824) 3"
    by (rule format_bytes_loop_step) simp_all
  also have "\<dots> = format_bytes_loop (Dbl 1048576) 4"
    by (rule format_bytes_loop_step) simp_all
  also have "\<dots> = (Dbl 1048576, 4)" by (rule format_bytes_loop_stop) simp
  finally show ?thesis by (simp add: u64_to_double_def exbibyte_def round_double_exbibyte)
qed

lemma format_bytes_loop_1000: "format_bytes_loop (u64_to_double 1000) 0 = (Dbl 1000, 0)"
  by (simp add: u64_to_double_def format_bytes_loop_stop)

lemma show_dec_1000: "show_dec 1000 = ''1000''"
  by (simp add: show_dec.simps [of 1000] show_dec.simps [of 100] show_dec.simps [of 10]
      show_dec_digits digit_char_def)

theorem format_bytes_scaling_witness:
  "(2::int) ^ 50 \<le> uint exbibyte
   \<and> format_bytes_loop (u64_to_double exbibyte) 0 = (Dbl 1048576, 4)
   \<and> uint (1000 :: u64) < 1024
   \<and> format_bytes_loop (u64_to_double 1000) 0 = (Dbl 1000, 0)
   \<and> format_bytes 1000 [] 32 = ''1000 B''
   \<and> format_bytes_loop (u64_to_double 1536) 0 = (Dbl (3 / 2), 1)
   \<and> format_bytes 1536 [] 32 = ''1.5 KB''"
  using format_bytes_scaling [of exbibyte "[]"] format_bytes_scaling [of 1000 "[]"]
    format_bytes_scaling [of 1536 "[]"]
  by (simp add: format_bytes_loop_exbibyte format_bytes_loop_1000 format_bytes_loop_1536
      show_dec_1000) (simp add: exbibyte_def)

end
